theory Spec2Isabelle
  imports Main
begin

section \<open>Data model\<close>

text \<open>
  The schema simplifier of \<^verbatim>\<open>schemaSimplifier.ts\<close> and the transport wrapper of
  \<^verbatim>\<open>transportWrapper.ts\<close>, as functions of HOL.

  A schema node is the TypeScript interface \<^verbatim>\<open>JsonSchema\<close>: every field is optional
  (\<open>None\<close> is JavaScript's \<^verbatim>\<open>undefined\<close>). An object used as a dictionary
  (\<^verbatim>\<open>properties\<close>, \<^verbatim>\<open>$defs\<close>, \<^verbatim>\<open>definitions\<close>) is the association list of its own
  properties in insertion order. Keys of the interface's index signature are never read
  and never copied by the code, so a node does not carry them.

  Values of type \<^verbatim>\<open>unknown\<close> inside a schema (\<^verbatim>\<open>enum\<close>, \<^verbatim>\<open>const\<close>, \<^verbatim>\<open>default\<close>) are
  JSON literals; the code looks only at \<^verbatim>\<open>typeof\<close> of the first \<^verbatim>\<open>enum\<close> value, so a
  number is an integer here.

  The objects the code reads by a computed key (\<^verbatim>\<open>defs[refPath]\<close>,
  \<^verbatim>\<open>mergedProperties[key]\<close>) are plain objects, so a key that is not an own property is
  looked up in \<^verbatim>\<open>Object.prototype\<close>; the model does the same (\<open>get_member\<close>,
  \<open>merge_property\<close>). An assignment to the key \<^verbatim>\<open>__proto__\<close> creates no own property
  (\<open>simplify_properties\<close>).

  The keys of an object are distinct, and no function of the code depends on the order
  in which it meets distinct keys, so the order of an association list stands for no
  more than the set of its entries: JavaScript enumerates integer-like keys before the
  others, the lists here keep the order of insertion.
\<close>

datatype literal = LNull | LBool bool | LNum int | LStr string
  | LArr "literal list" | LObj "(string \<times> literal) list"

text \<open>\<^verbatim>\<open>type?: string | string[]\<close>\<close>

datatype type_value = Tag string | Tags "string list"

datatype schema = Schema
  (type: "type_value option")
  (properties: "(string \<times> schema) list option")
  (items: "schema option")
  (required: "string list option")
  (anyOf: "schema list option")
  (oneOf: "schema list option")
  (allOf: "schema list option")
  (ref: "string option")
  (dollar_defs: "(string \<times> schema) list option")
  (definitions: "(string \<times> schema) list option")
  (enum_values: "literal list option")
  (const: "literal option")
  (description: "string option")
  (default_value: "literal option")
  (additionalProperties: "(bool + schema) option")

text \<open>The object literal \<^verbatim>\<open>{}\<close> typed as a schema.\<close>

definition empty_schema :: schema where
  "empty_schema = Schema None None None None None None None None None None None None None None None"

text \<open>\<^verbatim>\<open>{ type: 'object', additionalProperties: true }\<close>, returned on depth overflow, on an
  unresolved reference and by a merge that saw no object option.\<close>

definition generic_object :: schema where
  "generic_object = Schema (Some (Tag ''object'')) None None None
     None None None None None None None None None None (Some (Inl True))"

text \<open>\<^verbatim>\<open>{ type: 'object' }\<close>\<close>

definition bare_object :: schema where
  "bare_object = Schema (Some (Tag ''object'')) None None None
     None None None None None None None None None None None"

text \<open>\<^verbatim>\<open>{ ...schema, type: t }\<close>\<close>

definition with_type :: "type_value option \<Rightarrow> schema \<Rightarrow> schema" where
  "with_type t s = Schema t (properties s) (items s) (required s) (anyOf s) (oneOf s) (allOf s)
     (ref s) (dollar_defs s) (definitions s) (enum_values s) (const s) (description s)
     (default_value s) (additionalProperties s)"

text \<open>The three shapes of object literal the code builds:
  \<^verbatim>\<open>{ type: 'object', properties, required, description?, additionalProperties? }\<close>,
  \<^verbatim>\<open>{ type: 'array', items, description? }\<close> and a node with at most
  \<^verbatim>\<open>type\<close>, \<^verbatim>\<open>enum\<close>, \<^verbatim>\<open>const\<close>, \<^verbatim>\<open>description\<close> and \<^verbatim>\<open>default\<close>.\<close>

definition object_node :: "(string \<times> schema) list \<Rightarrow> string list option \<Rightarrow> string option \<Rightarrow>
    (bool + schema) option \<Rightarrow> schema" where
  "object_node props req desc addl = Schema (Some (Tag ''object'')) (Some props) None req
     None None None None None None None None desc None addl"

definition array_node :: "schema \<Rightarrow> string option \<Rightarrow> schema" where
  "array_node item desc = Schema (Some (Tag ''array'')) None (Some item) None
     None None None None None None None None desc None None"

definition plain_node :: "type_value option \<Rightarrow> literal list option \<Rightarrow> literal option \<Rightarrow>
    string option \<Rightarrow> literal option \<Rightarrow> schema" where
  "plain_node t values c desc d = Schema t None None None
     None None None None None None values c desc d None"

subsection \<open>JavaScript truthiness\<close>

text \<open>A string is truthy unless it is empty; an array or an object is always truthy;
  \<^verbatim>\<open>undefined\<close> is falsy.\<close>

definition truthy_string :: "string option \<Rightarrow> bool" where
  "truthy_string v = (case v of None \<Rightarrow> False | Some s \<Rightarrow> s \<noteq> [])"

definition truthy_type :: "type_value option \<Rightarrow> bool" where
  "truthy_type v = (case v of None \<Rightarrow> False | Some (Tag s) \<Rightarrow> s \<noteq> [] | Some (Tags ts) \<Rightarrow> True)"

text \<open>\<^verbatim>\<open>a.type === b.type\<close>: two strings are compared by value, two arrays by identity, and
  the arrays of two different nodes are different objects.\<close>

definition same_type :: "type_value option \<Rightarrow> type_value option \<Rightarrow> bool" where
  "same_type a b = (case (a, b) of
       (None, None) \<Rightarrow> True
     | (Some (Tag x), Some (Tag y)) \<Rightarrow> x = y
     | _ \<Rightarrow> False)"

text \<open>\<^verbatim>\<open>text.replace(pattern, '')\<close> with a string pattern removes the first occurrence of
  the pattern, wherever it is.\<close>

fun remove_first :: "string \<Rightarrow> string \<Rightarrow> string" where
  "remove_first pat [] = []"
| "remove_first pat (c # cs) =
     (if take (length pat) (c # cs) = pat then drop (length pat) (c # cs)
      else c # remove_first pat cs)"

text \<open>The names every plain object inherits from \<^verbatim>\<open>Object.prototype\<close>. Reading one of
  them from an object that has no own property of that name gives the inherited member, a
  function (for \<^verbatim>\<open>__proto__\<close> the prototype object), which is truthy.\<close>

definition object_prototype_names :: "string list" where
  "object_prototype_names = [''constructor'', ''__defineGetter__'', ''__defineSetter__'',
     ''hasOwnProperty'', ''__lookupGetter__'', ''__lookupSetter__'', ''isPrototypeOf'',
     ''propertyIsEnumerable'', ''toString'', ''valueOf'', ''__proto__'', ''toLocaleString'']"

datatype 'a member = Own 'a | Inherited | Missing

text \<open>An inherited member read as a schema node: a function (or the prototype object) has
  none of the fields of the interface, so every field the code reads of it is
  \<^verbatim>\<open>undefined\<close>. No other node that the simplifier returns or stores is empty.\<close>

definition inherited_member :: schema where
  "inherited_member = empty_schema"

text \<open>\<^verbatim>\<open>defs[refPath]\<close>\<close>

definition get_member :: "(string \<times> 'a) list \<Rightarrow> string \<Rightarrow> 'a member" where
  "get_member obj name = (case map_of obj name of
       Some v \<Rightarrow> Own v
     | None \<Rightarrow> if name \<in> set object_prototype_names then Inherited else Missing)"

section \<open>Type normalizer\<close>

text \<open>
  \<^verbatim>\<open>
  function normalizeType(type: string | string[] | undefined): string | undefined {
      if (!type) return undefined;
      if (typeof type === 'string') return type;
      const nonNullTypes = type.filter(t => t !== 'null');
      if (nonNullTypes.length > 0) { return nonNullTypes[0]; }
      return 'null';
  }
  \<close>
\<close>

definition normalizeType :: "type_value option \<Rightarrow> string option" where
  "normalizeType t = (case t of
       None \<Rightarrow> None
     | Some (Tag s) \<Rightarrow> if s = [] then None else Some s
     | Some (Tags ts) \<Rightarrow>
         (case filter (\<lambda>t. t \<noteq> ''null'') ts of
            [] \<Rightarrow> Some ''null''
          | first # _ \<Rightarrow> Some first))"

section \<open>Property merger\<close>

text \<open>\<^verbatim>\<open>[schema1.description, schema2.description].filter(Boolean)\<close>\<close>

definition truthy_descriptions :: "schema \<Rightarrow> schema \<Rightarrow> string list" where
  "truthy_descriptions schema1 schema2 =
     concat (map (\<lambda>d. case d of None \<Rightarrow> [] | Some s \<Rightarrow> if s = [] then [] else [s])
       [description schema1, description schema2])"

text \<open>\<^verbatim>\<open>descriptions.join(' OR ')\<close>\<close>

fun join_or :: "string list \<Rightarrow> string" where
  "join_or [] = []"
| "join_or [d] = d"
| "join_or (d # ds) = d @ '' OR '' @ join_or ds"

definition mergePropertySchemas :: "schema \<Rightarrow> schema \<Rightarrow> schema" where
  "mergePropertySchemas schema1 schema2 =
     (if same_type (type schema1) (type schema2) then schema1
      else if truthy_type (type schema1) \<and> \<not> truthy_type (type schema2) then schema1
      else if truthy_type (type schema2) \<and> \<not> truthy_type (type schema1) then schema2
      else let descriptions = truthy_descriptions schema1 schema2 in
        plain_node (Some (Tag ''string'')) None None
          (if descriptions \<noteq> [] then Some (join_or descriptions) else None) None)"

section \<open>Option merger\<close>

text \<open>One step of the inner loop of \<^verbatim>\<open>mergeSchemaOptions\<close>:
  \<^verbatim>\<open>
  if (!mergedProperties[key]) { mergedProperties[key] = propSchema; }
  else { mergedProperties[key] = mergePropertySchemas(mergedProperties[key], propSchema); }
  \<close>
  An assignment to an existing key keeps the key's place. \<^verbatim>\<open>mergedProperties\<close> starts as
  \<^verbatim>\<open>{}\<close>: for a key that is not yet an own property, \<^verbatim>\<open>mergedProperties[key]\<close> is
  \<^verbatim>\<open>undefined\<close> unless the key names a member of \<^verbatim>\<open>Object.prototype\<close>; then it is that
  member, which is truthy, and the \<^verbatim>\<open>else\<close> branch stores the merge of the member with
  \<^verbatim>\<open>propSchema\<close> as an own property (the member itself when \<^verbatim>\<open>propSchema\<close> has no type).
  The key \<^verbatim>\<open>__proto__\<close> never reaches this loop, since no node the simplifier returns has
  it as an own property (lemma \<open>simplify_no_proto_key\<close>); the model treats it as the
  other inherited names.\<close>

fun merge_property :: "(string \<times> schema) list \<Rightarrow> string \<Rightarrow> schema \<Rightarrow> (string \<times> schema) list" where
  "merge_property [] key propSchema =
     (if key \<in> set object_prototype_names
      then [(key, mergePropertySchemas inherited_member propSchema)]
      else [(key, propSchema)])"
| "merge_property ((k, s) # rest) key propSchema =
     (if k = key then (k, mergePropertySchemas s propSchema) # rest
      else (k, s) # merge_property rest key propSchema)"

definition merge_properties :: "(string \<times> schema) list \<Rightarrow> (string \<times> schema) list \<Rightarrow> (string \<times> schema) list" where
  "merge_properties mergedProperties entries =
     foldl (\<lambda>merged (key, propSchema). merge_property merged key propSchema) mergedProperties entries"

text \<open>\<^verbatim>\<open>new Set(xs)\<close>: the elements of \<open>xs\<close> in the order of their first occurrence.\<close>

definition new_Set :: "string list \<Rightarrow> string list" where
  "new_Set xs = foldl (\<lambda>s x. if x \<in> set s then s else s @ [x]) [] xs"

text \<open>\<^verbatim>\<open>simplified.type === 'object' && simplified.properties\<close>\<close>

definition object_option :: "schema \<Rightarrow> bool" where
  "object_option simplified = (type simplified = Some (Tag ''object'') \<and> properties simplified \<noteq> None)"

text \<open>\<^verbatim>\<open>simplified.required || []\<close> and the entries of \<^verbatim>\<open>simplified.properties\<close>\<close>

definition required_or_empty :: "schema \<Rightarrow> string list" where
  "required_or_empty s = (case required s of None \<Rightarrow> [] | Some r \<Rightarrow> r)"

definition entries :: "schema \<Rightarrow> (string \<times> schema) list" where
  "entries s = (case properties s of None \<Rightarrow> [] | Some ps \<Rightarrow> ps)"

text \<open>The code after the loop of \<^verbatim>\<open>mergeSchemaOptions\<close>.\<close>

definition finalRequired :: "string list list \<Rightarrow> string list" where
  "finalRequired requiredSets = (case requiredSets of
       [] \<Rightarrow> []
     | firstSet # _ \<Rightarrow> filter (\<lambda>prop. list_all (\<lambda>s. prop \<in> set s) requiredSets) firstSet)"

definition merge_result :: "(string \<times> schema) list \<Rightarrow> string list list \<Rightarrow> bool \<Rightarrow> schema" where
  "merge_result mergedProperties requiredSets hasObjectOptions =
     (if \<not> hasObjectOptions then generic_object
      else object_node mergedProperties
        (if finalRequired requiredSets \<noteq> [] then Some (finalRequired requiredSets) else None)
        None None)"

text \<open>The loop over the options. \<open>simplify\<close> is the recursive call
  \<^verbatim>\<open>simplifySchemaForDatabricks(option, maxDepth, currentDepth, defs)\<close>; it returns \<open>None\<close>
  when that call does not return. An option after an early \<^verbatim>\<open>return\<close> is not simplified.\<close>

fun merge_loop :: "(schema \<Rightarrow> schema option) \<Rightarrow> schema list \<Rightarrow> (string \<times> schema) list \<Rightarrow>
    string list list \<Rightarrow> bool \<Rightarrow> schema option" where
  "merge_loop simplify [] mergedProperties requiredSets hasObjectOptions =
     Some (merge_result mergedProperties requiredSets hasObjectOptions)"
| "merge_loop simplify (opt # rest) mergedProperties requiredSets hasObjectOptions =
     (case simplify opt of
        None \<Rightarrow> None
      | Some simplified \<Rightarrow>
          if object_option simplified then
            merge_loop simplify rest (merge_properties mergedProperties (entries simplified))
              (requiredSets @ [new_Set (required_or_empty simplified)]) True
          else if truthy_type (type simplified) \<and> \<not> hasObjectOptions then Some simplified
          else merge_loop simplify rest mergedProperties requiredSets hasObjectOptions)"

definition mergeSchemaOptions :: "(schema \<Rightarrow> nat \<Rightarrow> nat \<Rightarrow> (string \<times> schema) list option \<Rightarrow> schema option) \<Rightarrow>
    schema list \<Rightarrow> nat \<Rightarrow> nat \<Rightarrow> (string \<times> schema) list \<Rightarrow> schema option" where
  "mergeSchemaOptions simplify options maxDepth currentDepth defs =
     merge_loop (\<lambda>opt. simplify opt maxDepth currentDepth (Some defs)) options [] [] False"

section \<open>Schema simplifier\<close>

text \<open>\<^verbatim>\<open>definitions || schema.$defs || schema.definitions || {}\<close>\<close>

definition collect_defs :: "(string \<times> schema) list option \<Rightarrow> schema \<Rightarrow> (string \<times> schema) list" where
  "collect_defs defs_arg schema = (case defs_arg of
       Some d \<Rightarrow> d
     | None \<Rightarrow> (case dollar_defs schema of
         Some d \<Rightarrow> d
       | None \<Rightarrow> (case definitions schema of Some d \<Rightarrow> d | None \<Rightarrow> [])))"

text \<open>\<^verbatim>\<open>if (Array.isArray(schema.type)) schemaToProcess = { ...schema, type: normalizeType(schema.type) }\<close>\<close>

definition normalize_node :: "schema \<Rightarrow> schema" where
  "normalize_node schema = (case type schema of
       Some (Tags ts) \<Rightarrow> with_type (map_option Tag (normalizeType (Some (Tags ts)))) schema
     | _ \<Rightarrow> schema)"

text \<open>\<^verbatim>\<open>schemaToProcess.$ref.replace('#/$defs/', '').replace('#/definitions/', '')\<close>\<close>

definition refPath :: "string \<Rightarrow> string" where
  "refPath r = remove_first ''#/definitions/'' (remove_first ''#/$defs/'' r)"

text \<open>The loop over \<^verbatim>\<open>Object.entries(schemaToProcess.properties)\<close> with its assignment
  \<^verbatim>\<open>simplifiedProperties[key] = simplifySchemaForDatabricks(...)\<close>. For the key
  \<^verbatim>\<open>__proto__\<close> (an own property of an object that \<^verbatim>\<open>JSON.parse\<close> made) the call is made,
  but the assignment sets the prototype of \<^verbatim>\<open>simplifiedProperties\<close> and creates no own
  property; nothing reads \<^verbatim>\<open>simplifiedProperties\<close> by key afterwards.\<close>

fun simplify_properties :: "(schema \<Rightarrow> schema option) \<Rightarrow> (string \<times> schema) list \<Rightarrow>
    (string \<times> schema) list option" where
  "simplify_properties simplify [] = Some []"
| "simplify_properties simplify ((key, propSchema) # rest) =
     (case simplify propSchema of
        None \<Rightarrow> None
      | Some simplified \<Rightarrow>
          (case simplify_properties simplify rest of
             None \<Rightarrow> None
           | Some simplifiedProperties \<Rightarrow>
               Some (if key = ''__proto__'' then simplifiedProperties
                     else (key, simplified) # simplifiedProperties)))"

text \<open>\<^verbatim>\<open>typeof firstValue\<close> in the inference of a type from \<^verbatim>\<open>enum\<close>.\<close>

definition inferred_type :: "literal list \<Rightarrow> type_value option" where
  "inferred_type values = (case values of
       LStr _ # _ \<Rightarrow> Some (Tag ''string'')
     | LNum _ # _ \<Rightarrow> Some (Tag ''number'')
     | LBool _ # _ \<Rightarrow> Some (Tag ''boolean'')
     | _ \<Rightarrow> None)"

text \<open>The last part of \<^verbatim>\<open>simplifySchemaForDatabricks\<close>, from
  \<^verbatim>\<open>const simplified: JsonSchema = {}\<close> on.\<close>

definition primitive :: "schema \<Rightarrow> schema" where
  "primitive schemaToProcess =
     (let copied_type = (if truthy_type (type schemaToProcess) then type schemaToProcess else None);
          copied_description =
            (if truthy_string (description schemaToProcess) then description schemaToProcess else None);
          simplified_type =
            (case (copied_type, enum_values schemaToProcess) of
               (None, Some values) \<Rightarrow> inferred_type values
             | _ \<Rightarrow> copied_type);
          simplified = plain_node simplified_type (enum_values schemaToProcess)
            (const schemaToProcess) copied_description (default_value schemaToProcess)
      in if simplified = empty_schema then bare_object else simplified)"

text \<open>
  \<^verbatim>\<open>simplifySchemaForDatabricks(schema, maxDepth = 4, currentDepth = 0, definitions?)\<close>.
  The first argument is fuel: every call of the function uses one unit, and the result
  is \<open>None\<close> when the fuel does not suffice. The function returns on an input iff some
  amount of fuel gives \<open>Some\<close> result.

  A reference whose name is not an own key of the table but is inherited from
  \<^verbatim>\<open>Object.prototype\<close> is truthy, so the code recurses into the inherited member. That value
  has none of the fields the function reads, so the call takes the last branch with an
  empty \<^verbatim>\<open>simplified\<close> and returns \<^verbatim>\<open>{ type: 'object' }\<close>.
\<close>

primrec simplifySchemaForDatabricks :: "nat \<Rightarrow> schema \<Rightarrow> nat \<Rightarrow> nat \<Rightarrow>
    (string \<times> schema) list option \<Rightarrow> schema option" where
  "simplifySchemaForDatabricks 0 schema maxDepth currentDepth defs_arg = None"
| "simplifySchemaForDatabricks (Suc fuel) schema maxDepth currentDepth defs_arg =
     (let defs = collect_defs defs_arg schema in
      if currentDepth > maxDepth then Some generic_object
      else let schemaToProcess = normalize_node schema in
        if truthy_string (ref schemaToProcess) then
          (case get_member defs (refPath (case ref schemaToProcess of Some r \<Rightarrow> r | None \<Rightarrow> [])) of
             Own refSchema \<Rightarrow> simplifySchemaForDatabricks fuel refSchema maxDepth currentDepth (Some defs)
           | Inherited \<Rightarrow> Some bare_object
           | Missing \<Rightarrow> Some generic_object)
        else if anyOf schemaToProcess \<noteq> None \<or> oneOf schemaToProcess \<noteq> None then
          mergeSchemaOptions (simplifySchemaForDatabricks fuel)
            (case anyOf schemaToProcess of
               Some options \<Rightarrow> options
             | None \<Rightarrow> (case oneOf schemaToProcess of Some options \<Rightarrow> options | None \<Rightarrow> []))
            maxDepth currentDepth defs
        else if allOf schemaToProcess \<noteq> None then
          mergeSchemaOptions (simplifySchemaForDatabricks fuel)
            (case allOf schemaToProcess of Some options \<Rightarrow> options | None \<Rightarrow> [])
            maxDepth currentDepth defs
        else if type schemaToProcess = Some (Tag ''object'') \<and> properties schemaToProcess \<noteq> None then
          (case simplify_properties
                  (\<lambda>propSchema. simplifySchemaForDatabricks fuel propSchema maxDepth (currentDepth + 1) (Some defs))
                  (entries schemaToProcess) of
             None \<Rightarrow> None
           | Some simplifiedProperties \<Rightarrow>
               Some (object_node simplifiedProperties (required schemaToProcess)
                 (if truthy_string (description schemaToProcess) then description schemaToProcess else None)
                 (additionalProperties schemaToProcess)))
        else if type schemaToProcess = Some (Tag ''array'') \<and> items schemaToProcess \<noteq> None then
          (case items schemaToProcess of
             None \<Rightarrow> None
           | Some itemSchema \<Rightarrow>
               (case simplifySchemaForDatabricks fuel itemSchema maxDepth (currentDepth + 1) (Some defs) of
                  None \<Rightarrow> None
                | Some simplifiedItems \<Rightarrow>
                    Some (array_node simplifiedItems
                      (if truthy_string (description schemaToProcess) then description schemaToProcess else None))))
        else Some (primitive schemaToProcess))"

section \<open>Response interceptor\<close>

text \<open>
  A JSON value of a message. The code reads the property \<^verbatim>\<open>inputSchema\<close> of a tool entry
  through the cast \<^verbatim>\<open>t.inputSchema as JsonSchema | undefined\<close>; an object carries this
  property in a field of its own, of exactly that type, and its other own properties as
  an association list in insertion order.
\<close>

datatype json = JNull | JBool bool | JNum int | JStr string | JArr "json list"
  | JObj "schema option" "(string \<times> json) list"

definition truthy :: "json \<Rightarrow> bool" where
  "truthy v = (case v of
       JNull \<Rightarrow> False | JBool b \<Rightarrow> b | JNum n \<Rightarrow> n \<noteq> 0 | JStr s \<Rightarrow> s \<noteq> []
     | JArr _ \<Rightarrow> True | JObj _ _ \<Rightarrow> True)"

text \<open>\<^verbatim>\<open>typeof v === 'object'\<close>, which holds of \<^verbatim>\<open>null\<close>, of arrays and of objects.\<close>

definition typeof_object :: "json \<Rightarrow> bool" where
  "typeof_object v = (case v of JNull \<Rightarrow> True | JArr _ \<Rightarrow> True | JObj _ _ \<Rightarrow> True | _ \<Rightarrow> False)"

text \<open>The property read \<^verbatim>\<open>v.name\<close> for the names the code reads this way:
  \<^verbatim>\<open>method\<close>, \<^verbatim>\<open>result\<close> and \<^verbatim>\<open>tools\<close>. No array and no primitive value has such a
  property; the code never reads a property of \<^verbatim>\<open>null\<close>.\<close>

fun get :: "json \<Rightarrow> string \<Rightarrow> json option" where
  "get (JObj _ members) name = map_of members name"
| "get _ name = None"

text \<open>\<^verbatim>\<open>t.inputSchema as JsonSchema | undefined\<close>\<close>

fun inputSchema :: "json \<Rightarrow> schema option" where
  "inputSchema (JObj s _) = s"
| "inputSchema _ = None"

definition truthy_opt :: "json option \<Rightarrow> bool" where
  "truthy_opt v = (case v of None \<Rightarrow> False | Some x \<Rightarrow> truthy x)"

text \<open>
  \<^verbatim>\<open>
  function isToolsListResponse(message: unknown): boolean {
      if (!message || typeof message !== 'object') return false;
      const msg = message as Record<string, unknown>;
      if (msg.method || !msg.result) return false;
      const result = msg.result as Record<string, unknown>;
      return Array.isArray(result.tools);
  }
  \<close>
\<close>

definition isToolsListResponse :: "json \<Rightarrow> bool" where
  "isToolsListResponse message =
     (if \<not> truthy message \<or> \<not> typeof_object message then False
      else if truthy_opt (get message ''method'') \<or> \<not> truthy_opt (get message ''result'') then False
      else (case get message ''result'' of
              None \<Rightarrow> False
            | Some result \<Rightarrow> (case get result ''tools'' of Some (JArr _) \<Rightarrow> True | _ \<Rightarrow> False)))"

text \<open>The decimal numeral of an array index, and the own enumerable properties that an
  object spread \<^verbatim>\<open>{ ...v }\<close> copies (the key \<^verbatim>\<open>inputSchema\<close> apart): for an array its
  elements under their indices.\<close>

fun decimal :: "nat \<Rightarrow> string" where
  "decimal n = (if n < 10 then [''0123456789'' ! n]
     else decimal (n div 10) @ [''0123456789'' ! (n mod 10)])"

fun own_properties :: "json \<Rightarrow> (string \<times> json) list" where
  "own_properties (JObj _ members) = members"
| "own_properties (JArr xs) = zip (map decimal [0..<length xs]) xs"
| "own_properties _ = []"

text \<open>The property \<open>name: v\<close> in an object literal after a spread: an existing key keeps
  its place and takes the new value, a new key comes last.\<close>

fun assign :: "(string \<times> json) list \<Rightarrow> string \<Rightarrow> json \<Rightarrow> (string \<times> json) list" where
  "assign [] name v = [(name, v)]"
| "assign ((k, x) # rest) name v =
     (if k = name then (k, v) # rest else (k, x) # assign rest name v)"

text \<open>\<^verbatim>\<open>{ ...obj, name: v }\<close>\<close>

definition spread_with :: "json \<Rightarrow> string \<Rightarrow> json \<Rightarrow> json" where
  "spread_with obj name v = JObj (inputSchema obj) (assign (own_properties obj) name v)"

text \<open>
  \<^verbatim>\<open>
  export function simplifyToolInputSchema(inputSchema: JsonSchema | undefined): JsonSchema {
      if (!inputSchema) { return { type: 'object', properties: {} }; }
      return simplifySchemaForDatabricks(inputSchema, 4, 0);
  }
  \<close>
\<close>

definition simplifyToolInputSchema :: "nat \<Rightarrow> schema option \<Rightarrow> schema option" where
  "simplifyToolInputSchema fuel input = (case input of
       None \<Rightarrow> Some (object_node [] None None None)
     | Some s \<Rightarrow> simplifySchemaForDatabricks fuel s 4 0 None)"

text \<open>The function mapped over \<^verbatim>\<open>result.tools\<close>:
  \<^verbatim>\<open>
  if (!tool || typeof tool !== 'object') return tool;
  const t = tool as Record<string, unknown>;
  return { ...t, inputSchema: simplifyToolInputSchema(t.inputSchema as JsonSchema | undefined) };
  \<close>\<close>

definition simplify_tool :: "nat \<Rightarrow> json \<Rightarrow> json option" where
  "simplify_tool fuel tool =
     (if \<not> truthy tool \<or> \<not> typeof_object tool then Some tool
      else (case simplifyToolInputSchema fuel (inputSchema tool) of
              None \<Rightarrow> None
            | Some simplified \<Rightarrow> Some (JObj (Some simplified) (own_properties tool))))"

text \<open>\<^verbatim>\<open>result.tools.map(...)\<close>, which returns only if every call returns.\<close>

fun map_tools :: "(json \<Rightarrow> json option) \<Rightarrow> json list \<Rightarrow> json list option" where
  "map_tools f [] = Some []"
| "map_tools f (tool # rest) =
     (case f tool of
        None \<Rightarrow> None
      | Some t \<Rightarrow> (case map_tools f rest of None \<Rightarrow> None | Some ts \<Rightarrow> Some (t # ts)))"

definition simplifyToolsListResponse :: "nat \<Rightarrow> json \<Rightarrow> json option" where
  "simplifyToolsListResponse fuel response =
     (if \<not> truthy response \<or> \<not> typeof_object response then Some response
      else (case get response ''result'' of
              None \<Rightarrow> Some response
            | Some result \<Rightarrow>
                if truthy result \<and> typeof_object result then
                  (case get result ''tools'' of
                     Some (JArr tools) \<Rightarrow>
                       (case map_tools (simplify_tool fuel) tools of
                          None \<Rightarrow> None
                        | Some simplifiedTools \<Rightarrow>
                            Some (spread_with response ''result''
                              (spread_with result ''tools'' (JArr simplifiedTools))))
                   | _ \<Rightarrow> Some response)
                else Some response))"

text \<open>The \<^verbatim>\<open>send\<close> that \<^verbatim>\<open>wrapTransportForDatabricks\<close> installs. \<open>originalSend\<close> is the
  transport's own \<^verbatim>\<open>send\<close>, a function from the message to its outcome; the result is
  \<open>None\<close> when the simplification does not return, so that nothing is sent.\<close>

definition wrapped_send :: "nat \<Rightarrow> (json \<Rightarrow> 'r) \<Rightarrow> json \<Rightarrow> 'r option" where
  "wrapped_send fuel originalSend message =
     (if isToolsListResponse message then
        (case simplifyToolsListResponse fuel message of
           None \<Rightarrow> None
         | Some simplified \<Rightarrow> Some (originalSend simplified))
      else Some (originalSend message))"

subsection \<open>Example messages\<close>

text \<open>\<^verbatim>\<open>{result: {tools: [{name: "x", inputSchema: {type: ["string","null"]}}]}}\<close> and
  \<^verbatim>\<open>{result: {tools: [{name: "x", inputSchema: {type: "string"}}]}}\<close>\<close>

definition example_listing :: json where
  "example_listing = JObj None [(''result'', JObj None [(''tools'', JArr
     [JObj (Some (plain_node (Some (Tags [''string'', ''null''])) None None None None))
        [(''name'', JStr ''x'')]])])]"

definition example_listing_simplified :: json where
  "example_listing_simplified = JObj None [(''result'', JObj None [(''tools'', JArr
     [JObj (Some (plain_node (Some (Tag ''string'')) None None None None))
        [(''name'', JStr ''x'')]])])]"

text \<open>\<^verbatim>\<open>{id: 1, result: {tools: [null, "a", 7]}}\<close> and \<^verbatim>\<open>{id: 1, result: {}}\<close>\<close>

definition example_odd_tools :: json where
  "example_odd_tools = JObj None [(''id'', JNum 1),
     (''result'', JObj None [(''tools'', JArr [JNull, JStr ''a'', JNum 7])])]"

definition example_no_tools :: json where
  "example_no_tools = JObj None [(''id'', JNum 1), (''result'', JObj None [])]"

subsection \<open>Example schemas\<close>

text \<open>\<^verbatim>\<open>{type: "string"}\<close> and \<^verbatim>\<open>{type: "number"}\<close>\<close>

definition string_schema :: schema where
  "string_schema = plain_node (Some (Tag ''string'')) None None None None"

definition number_schema :: schema where
  "number_schema = plain_node (Some (Tag ''number'')) None None None None"

text \<open>\<^verbatim>\<open>{anyOf: [{type: "object", properties: {a: {type: "string"}}, required: ["a"]},
            {type: "object", properties: {b: {type: "number"}}, required: ["a"]}]}\<close>\<close>

definition variant_a :: schema where
  "variant_a = object_node [(''a'', string_schema)] (Some [''a'']) None None"

definition variant_b :: schema where
  "variant_b = object_node [(''b'', number_schema)] (Some [''a'']) None None"

text \<open>\<^verbatim>\<open>{type: "object", properties: {a: {type: "string"}, b: {type: "number"}}}\<close>\<close>

definition variant_ab :: schema where
  "variant_ab = object_node [(''a'', string_schema), (''b'', number_schema)] None None None"

text \<open>\<^verbatim>\<open>{description: "d"}\<close>\<close>

definition described_only :: schema where
  "described_only = plain_node None None None (Some ''d'') None"

definition required_clash :: schema where
  "required_clash = Schema None None None None (Some [variant_a, variant_b]) None None None
     None None None None None None None"

text \<open>\<^verbatim>\<open>{$ref: r}\<close>\<close>

definition ref_node :: "string \<Rightarrow> schema" where
  "ref_node r = Schema None None None None None None None (Some r)
     None None None None None None None"

text \<open>The reference example:
  \<^verbatim>\<open>{type: "object", properties: {origin: {$ref: "#/$defs/Point"}},
    $defs: {Point: {type: "object", properties: {x: {type: "number"}, y: {type: "number"}}}}}\<close>\<close>

definition point_schema :: schema where
  "point_schema = object_node [(''x'', number_schema), (''y'', number_schema)] None None None"

definition root_with_point :: schema where
  "root_with_point = Schema (Some (Tag ''object'')) (Some [(''origin'', ref_node ''#/$defs/Point'')])
     None None None None None None (Some [(''Point'', point_schema)]) None None None None None None"

text \<open>A reference chain that comes back to itself:
  \<^verbatim>\<open>{$ref: "#/$defs/A", $defs: {A: {$ref: "#/$defs/A"}}}\<close>\<close>

definition cyclic_root :: schema where
  "cyclic_root = Schema None None None None None None None (Some ''#/$defs/A'')
     (Some [(''A'', ref_node ''#/$defs/A'')]) None None None None None None"

text \<open>\<^verbatim>\<open>{ ...schema, $ref: undefined }\<close>: the node without its reference.\<close>

definition without_ref :: "schema \<Rightarrow> schema" where
  "without_ref s = Schema (type s) (properties s) (items s) (required s) (anyOf s) (oneOf s) (allOf s)
     None (dollar_defs s) (definitions s) (enum_values s) (const s) (description s)
     (default_value s) (additionalProperties s)"

text \<open>A tool listing whose only tool has the cyclic schema as its input schema:
  \<^verbatim>\<open>{result: {tools: [{name: "x", inputSchema: {$ref: "#/$defs/A", $defs: {A: {$ref: "#/$defs/A"}}}}]}}\<close>\<close>

definition cyclic_listing :: json where
  "cyclic_listing = JObj None [(''result'', JObj None [(''tools'', JArr
     [JObj (Some cyclic_root) [(''name'', JStr ''x'')]])])]"

text \<open>A union whose only option has an untyped property named like a member of
  \<^verbatim>\<open>Object.prototype\<close>:
  \<^verbatim>\<open>{anyOf: [{type: "object", properties: {toString: {description: "d"}}}]}\<close>\<close>

definition inherited_name_union :: schema where
  "inherited_name_union = Schema None None None None
     (Some [object_node [(''toString'', described_only)] None None None]) None None None
     None None None None None None None"

text \<open>\<^verbatim>\<open>{type: "object", properties: {}, additionalProperties: {$ref: "#/$defs/Point"}}\<close>\<close>

definition open_object :: schema where
  "open_object = object_node [] None None (Some (Inr (ref_node ''#/$defs/Point'')))"

text \<open>The result for \<open>root_with_point\<close>.\<close>

definition root_with_point_simplified :: schema where
  "root_with_point_simplified = object_node [(''origin'', point_schema)] None None None"

section \<open>Returning runs\<close>

text \<open>The call \<^verbatim>\<open>simplifySchemaForDatabricks(schema, maxDepth, currentDepth, definitions)\<close>
  returns \<open>result\<close>: some amount of fuel suffices.\<close>

definition returns :: "schema \<Rightarrow> nat \<Rightarrow> nat \<Rightarrow> (string \<times> schema) list option \<Rightarrow> schema \<Rightarrow> bool" where
  "returns schema maxDepth currentDepth defs_arg result =
     (\<exists>fuel. simplifySchemaForDatabricks fuel schema maxDepth currentDepth defs_arg = Some result)"

section \<open>Shapes of simplified nodes\<close>

text \<open>\<open>fallback_free k y\<close>: none of the nodes on the first \<open>k\<close> levels of \<open>y\<close> (the node
  itself, the values of its \<^verbatim>\<open>properties\<close>, its \<^verbatim>\<open>items\<close>, and so on) is the generic
  object \<^verbatim>\<open>{type: 'object', additionalProperties: true}\<close>. For a node at depth \<open>0\<close> the
  levels at depth at most \<open>maxDepth\<close> are the first \<open>maxDepth + 1\<close>.\<close>

primrec fallback_free :: "nat \<Rightarrow> schema \<Rightarrow> bool" where
  "fallback_free 0 y = True"
| "fallback_free (Suc k) y =
     (y \<noteq> generic_object
      \<and> list_all (\<lambda>(key, propSchema). fallback_free k propSchema) (entries y)
      \<and> (case items y of None \<Rightarrow> True | Some itemSchema \<Rightarrow> fallback_free k itemSchema))"

text \<open>\<open>member_free k y\<close>: none of the nodes on the first \<open>k\<close> levels of \<open>y\<close> is an inherited
  member of \<^verbatim>\<open>Object.prototype\<close>. The merge stores such a member under a property whose
  name is inherited (\<^verbatim>\<open>toString\<close>, \<^verbatim>\<open>constructor\<close>, ...) and whose schema has no type.\<close>

primrec member_free :: "nat \<Rightarrow> schema \<Rightarrow> bool" where
  "member_free 0 y = True"
| "member_free (Suc k) y =
     (y \<noteq> inherited_member
      \<and> list_all (\<lambda>(key, propSchema). member_free k propSchema) (entries y)
      \<and> (case items y of None \<Rightarrow> True | Some itemSchema \<Rightarrow> member_free k itemSchema))"

text \<open>A description the code copies is a non-empty string.\<close>

definition truthy_or_absent :: "string option \<Rightarrow> bool" where
  "truthy_or_absent d = (case d of None \<Rightarrow> True | Some s \<Rightarrow> s \<noteq> [])"

text \<open>What the last branch of the simplifier returns: a non-empty node with at most
  \<^verbatim>\<open>type\<close>, \<^verbatim>\<open>enum\<close>, \<^verbatim>\<open>const\<close>, \<^verbatim>\<open>description\<close>, \<^verbatim>\<open>default\<close>, whose type is a non-empty
  single tag, or is absent with nothing to infer it from.\<close>

definition plain_form :: "schema \<Rightarrow> bool" where
  "plain_form y =
     (y = plain_node (type y) (enum_values y) (const y) (description y) (default_value y)
      \<and> y \<noteq> empty_schema
      \<and> (case type y of
            None \<Rightarrow> (case enum_values y of None \<Rightarrow> True | Some values \<Rightarrow> inferred_type values = None)
          | Some (Tag t) \<Rightarrow> t \<noteq> []
          | Some (Tags ts) \<Rightarrow> False)
      \<and> truthy_or_absent (description y))"

text \<open>\<open>output_form k y\<close>: \<open>y\<close> has the shape of a result of the simplifier at a position with
  \<open>k\<close> levels left above the depth limit: beyond the limit the generic object, within it
  the generic object, an object node or an array node over such results, or a plain node;
  as the value of a property also an inherited member that the merge stored. No property
  is named \<^verbatim>\<open>__proto__\<close>.\<close>

primrec output_form :: "nat \<Rightarrow> schema \<Rightarrow> bool" where
  "output_form 0 y = (y = generic_object)"
| "output_form (Suc k) y =
     (y = generic_object
      \<or> y = inherited_member
      \<or> (y = object_node (entries y) (required y) (description y) (additionalProperties y)
          \<and> truthy_or_absent (description y)
          \<and> list_all (\<lambda>(key, propSchema). key \<noteq> ''__proto__'' \<and> output_form k propSchema) (entries y))
      \<or> (case items y of
            None \<Rightarrow> False
          | Some itemSchema \<Rightarrow>
              y = array_node itemSchema (description y) \<and> truthy_or_absent (description y)
              \<and> output_form k itemSchema)
      \<or> plain_form y)"

section \<open>Type normalizer: properties\<close>

text \<open>
  C7. \<open>normalizeType\<close> is a total function. A single tag is returned unchanged (every tag
  of the type vocabulary is a non-empty string; the empty string is falsy and gives
  \<^verbatim>\<open>undefined\<close>). A set of tags gives its first tag that is not \<^verbatim>\<open>null\<close>, and a set in
  which every tag is \<^verbatim>\<open>null\<close> gives \<^verbatim>\<open>null\<close>. With any fuel the simplifier maps
  \<^verbatim>\<open>{type: ["number","string","null"]}\<close> to \<^verbatim>\<open>{type: "number"}\<close>.
\<close>

theorem normalizeType_policy:
  "(t \<noteq> [] \<longrightarrow> normalizeType (Some (Tag t)) = Some t)
   \<and> (set nulls \<subseteq> {''null''} \<and> t \<noteq> ''null'' \<longrightarrow>
        normalizeType (Some (Tags (nulls @ t # rest))) = Some t)
   \<and> (set ts \<subseteq> {''null''} \<longrightarrow> normalizeType (Some (Tags ts)) = Some ''null'')
   \<and> simplifySchemaForDatabricks (Suc fuel)
        (plain_node (Some (Tags [''number'', ''string'', ''null''])) None None None None) 4 0 None
      = Some (plain_node (Some (Tag ''number'')) None None None None)"
proof -
  have drop_nulls: "filter (\<lambda>x. x \<noteq> ''null'') xs = []" if "set xs \<subseteq> {''null''}" for xs :: "string list"
    using that by (induction xs) auto
  have single: "t \<noteq> [] \<longrightarrow> normalizeType (Some (Tag t)) = Some t"
    by (simp add: normalizeType_def)
  have first: "set nulls \<subseteq> {''null''} \<and> t \<noteq> ''null'' \<longrightarrow>
      normalizeType (Some (Tags (nulls @ t # rest))) = Some t"
    by (simp add: normalizeType_def drop_nulls)
  have only_null: "set ts \<subseteq> {''null''} \<longrightarrow> normalizeType (Some (Tags ts)) = Some ''null''"
    by (simp add: normalizeType_def drop_nulls)
  have example: "simplifySchemaForDatabricks (Suc fuel)
        (plain_node (Some (Tags [''number'', ''string'', ''null''])) None None None None) 4 0 None
      = Some (plain_node (Some (Tag ''number'')) None None None None)"
    by (simp add: plain_node_def collect_defs_def normalize_node_def with_type_def
        normalizeType_def truthy_string_def primitive_def truthy_type_def empty_schema_def)
  from single first only_null example show ?thesis by blast
qed

theorem normalizeType_policy_witness:
  "''string'' \<noteq> [] \<and> normalizeType (Some (Tag ''string'')) = Some ''string''
   \<and> set [''null''] \<subseteq> {''null''} \<and> ''string'' \<noteq> ''null''
   \<and> normalizeType (Some (Tags [''null'', ''string'', ''number''])) = Some ''string''
   \<and> normalizeType (Some (Tags [''null'', ''null''])) = Some ''null''"
  using normalizeType_policy [of "''string''" "[''null'']" "[''number'']" "[''null'', ''null'']" 0]
  by simp

section \<open>Response interceptor: properties\<close>

lemma map_of_assign_same: "map_of (assign members name v) name = Some v"
  by (induction members name v rule: assign.induct) auto

lemma map_of_assign_other: "other \<noteq> name \<Longrightarrow> map_of (assign members name v) other = map_of members other"
  by (induction members name v rule: assign.induct) auto

lemma get_spread_same: "get (spread_with obj name v) name = Some v"
  by (simp add: spread_with_def map_of_assign_same)

lemma get_spread_other:
  "other \<noteq> name \<Longrightarrow> get (spread_with (JObj s members) name v) other = get (JObj s members) other"
  by (simp add: spread_with_def map_of_assign_other)

lemma inputSchema_spread: "inputSchema (spread_with obj name v) = inputSchema obj"
  by (simp add: spread_with_def)

lemma get_Some_object: "get v name = Some x \<Longrightarrow> \<exists>s members. v = JObj s members"
  by (cases v) auto

lemma map_tools_Some:
  "map_tools f tools = Some tools' \<Longrightarrow>
     length tools' = length tools \<and> (\<forall>i<length tools. f (tools ! i) = Some (tools' ! i))"
proof (induction tools arbitrary: tools')
  case Nil
  then show ?case by simp
next
  case (Cons tool rest)
  from Cons.prems obtain t ts where t: "f tool = Some t" and ts: "map_tools f rest = Some ts"
    and eq: "tools' = t # ts"
    by (auto split: option.splits)
  from Cons.IH [OF ts] have len: "length ts = length rest"
    and nth: "\<forall>i<length rest. f (rest ! i) = Some (ts ! i)" by simp_all
  show ?case
  proof (intro conjI allI impI)
    show "length tools' = length (tool # rest)" using len eq by simp
  next
    fix i assume "i < length (tool # rest)"
    then show "f ((tool # rest) ! i) = Some (tools' ! i)"
      using t nth eq by (cases i) auto
  qed
qed

lemma map_tools_returns:
  "\<forall>t\<in>set tools. f t \<noteq> None \<Longrightarrow> \<exists>tools'. map_tools f tools = Some tools'"
  by (induction tools) (auto split: option.splits)

lemma classified_shape:
  assumes "isToolsListResponse message"
  shows "\<exists>s members r rmembers tools. message = JObj s members \<and> get message ''result'' = Some (JObj r rmembers)
     \<and> get (JObj r rmembers) ''tools'' = Some (JArr tools)"
proof -
  from assms obtain result where res: "get message ''result'' = Some result"
    by (auto simp: isToolsListResponse_def split: if_splits option.splits)
  with assms obtain tools where tools: "get result ''tools'' = Some (JArr tools)"
    by (auto simp: isToolsListResponse_def split: if_splits option.splits json.splits)
  from get_Some_object [OF res] get_Some_object [OF tools] res tools show ?thesis by blast
qed

lemma simplifyToolsListResponse_classified:
  assumes "get (JObj s members) ''result'' = Some (JObj r rmembers)"
    and "get (JObj r rmembers) ''tools'' = Some (JArr tools)"
  shows "simplifyToolsListResponse fuel (JObj s members) =
     (case map_tools (simplify_tool fuel) tools of
        None \<Rightarrow> None
      | Some simplifiedTools \<Rightarrow>
          Some (spread_with (JObj s members) ''result''
            (spread_with (JObj r rmembers) ''tools'' (JArr simplifiedTools))))"
  using assms by (simp add: simplifyToolsListResponse_def truthy_def typeof_object_def)

text \<open>
  C8. A message that is not classified as a tool-listing response is handed to the
  underlying send operation as it is, whatever the fuel; a message without a \<^verbatim>\<open>result\<close>
  field and a message whose \<^verbatim>\<open>result\<close> has no \<^verbatim>\<open>tools\<close> sequence are not classified.
\<close>

theorem unclassified_forwarded_unmodified:
  "(\<not> isToolsListResponse message \<longrightarrow>
      wrapped_send fuel originalSend message = Some (originalSend message))
   \<and> (get message ''result'' = None \<longrightarrow> \<not> isToolsListResponse message)
   \<and> ((\<forall>result tools. get message ''result'' = Some result \<longrightarrow> get result ''tools'' \<noteq> Some (JArr tools))
        \<longrightarrow> \<not> isToolsListResponse message)"
proof (intro conjI impI)
  assume "\<not> isToolsListResponse message"
  then show "wrapped_send fuel originalSend message = Some (originalSend message)"
    by (simp add: wrapped_send_def)
next
  assume "get message ''result'' = None"
  then show "\<not> isToolsListResponse message"
    by (simp add: isToolsListResponse_def truthy_opt_def)
next
  assume "\<forall>result tools. get message ''result'' = Some result \<longrightarrow> get result ''tools'' \<noteq> Some (JArr tools)"
  then show "\<not> isToolsListResponse message"
    using classified_shape [of message] by auto
qed

theorem unclassified_forwarded_unmodified_witness:
  "\<not> isToolsListResponse example_no_tools
   \<and> wrapped_send 0 (\<lambda>m. [m]) example_no_tools = Some [example_no_tools]
   \<and> get (JObj None [(''id'', JNum 1)]) ''result'' = None
   \<and> \<not> isToolsListResponse (JObj None [(''id'', JNum 1)])"
proof -
  have no_tools: "\<forall>result tools. get example_no_tools ''result'' = Some result \<longrightarrow>
      get result ''tools'' \<noteq> Some (JArr tools)"
    by (simp add: example_no_tools_def)
  have no_result: "get (JObj None [(''id'', JNum 1)]) ''result'' = None" by simp
  from unclassified_forwarded_unmodified [of example_no_tools 0 "\<lambda>m. [m]"] no_tools
  have "\<not> isToolsListResponse example_no_tools"
    and "wrapped_send 0 (\<lambda>m. [m]) example_no_tools = Some [example_no_tools]" by blast+
  moreover from unclassified_forwarded_unmodified [of "JObj None [(''id'', JNum 1)]" 0 "\<lambda>m. [m]"] no_result
  have "\<not> isToolsListResponse (JObj None [(''id'', JNum 1)])" by blast
  ultimately show ?thesis using no_result by blast
qed

text \<open>
  C10. In a classified message, an element of \<^verbatim>\<open>result.tools\<close> that is neither an object
  nor an array (\<^verbatim>\<open>null\<close>, a boolean, a number, a string) is mapped to itself: the mapped
  function returns it with any fuel, so it never fails on the element; the rewritten
  sequence has the element unchanged at the same index, hence without an
  \<^verbatim>\<open>inputSchema\<close>; and when no element is an object or an array the rewrite returns.
\<close>

theorem non_object_tool_carried_unchanged:
  assumes "isToolsListResponse message"
    and "get message ''result'' = Some result"
    and "get result ''tools'' = Some (JArr tools)"
    and "i < length tools"
    and "\<forall>xs. tools ! i \<noteq> JArr xs" and "\<forall>s members. tools ! i \<noteq> JObj s members"
  shows "simplify_tool fuel (tools ! i) = Some (tools ! i)
    \<and> (\<forall>out. simplifyToolsListResponse fuel message = Some out \<longrightarrow>
         (\<exists>result' tools'. get out ''result'' = Some result' \<and> get result' ''tools'' = Some (JArr tools')
            \<and> length tools' = length tools \<and> tools' ! i = tools ! i))
    \<and> ((\<forall>t\<in>set tools. (\<forall>xs. t \<noteq> JArr xs) \<and> (\<forall>s members. t \<noteq> JObj s members)) \<longrightarrow>
         simplifyToolsListResponse fuel message \<noteq> None)"
proof -
  have plain: "simplify_tool fuel t = Some t"
    if "\<forall>xs. t \<noteq> JArr xs" "\<forall>s members. t \<noteq> JObj s members" for t
    using that by (cases t) (auto simp: simplify_tool_def truthy_def typeof_object_def)
  from assms(2) obtain s members where msg: "message = JObj s members"
    using get_Some_object by blast
  from assms(3) obtain r rmembers where res: "result = JObj r rmembers"
    using get_Some_object by blast
  note run = simplifyToolsListResponse_classified [OF assms(2) [unfolded msg res] assms(3) [unfolded res], of fuel]
  have element: "simplify_tool fuel (tools ! i) = Some (tools ! i)"
    using plain assms(5,6) by blast
  have carried: "\<exists>result' tools'. get out ''result'' = Some result' \<and> get result' ''tools'' = Some (JArr tools')
            \<and> length tools' = length tools \<and> tools' ! i = tools ! i"
    if out: "simplifyToolsListResponse fuel message = Some out" for out
  proof -
    from out run msg obtain tools' where mapped: "map_tools (simplify_tool fuel) tools = Some tools'"
      and out_eq: "out = spread_with (JObj s members) ''result''
            (spread_with (JObj r rmembers) ''tools'' (JArr tools'))"
      by (auto split: option.splits)
    from map_tools_Some [OF mapped] assms(4) element
    have "length tools' = length tools" and "tools' ! i = tools ! i" by auto
    then show ?thesis using out_eq get_spread_same by blast
  qed
  have total: "simplifyToolsListResponse fuel message \<noteq> None"
    if "\<forall>t\<in>set tools. (\<forall>xs. t \<noteq> JArr xs) \<and> (\<forall>s members. t \<noteq> JObj s members)"
  proof -
    from that plain have "\<forall>t\<in>set tools. simplify_tool fuel t \<noteq> None" by auto
    from map_tools_returns [OF this] show ?thesis using run msg by auto
  qed
  from element carried total show ?thesis by blast
qed

theorem non_object_tool_carried_unchanged_witness:
  "isToolsListResponse example_odd_tools
   \<and> simplify_tool 0 (JStr ''a'') = Some (JStr ''a'')
   \<and> simplifyToolsListResponse 0 example_odd_tools \<noteq> None"
proof -
  let ?result = "JObj None [(''tools'', JArr [JNull, JStr ''a'', JNum 7])]"
  let ?tools = "[JNull, JStr ''a'', JNum 7]"
  have c: "isToolsListResponse example_odd_tools"
    by (simp add: example_odd_tools_def isToolsListResponse_def truthy_def typeof_object_def truthy_opt_def)
  have r: "get example_odd_tools ''result'' = Some ?result"
    by (simp add: example_odd_tools_def)
  have t: "get ?result ''tools'' = Some (JArr ?tools)" by simp
  have i: "(1::nat) < length ?tools" by simp
  have a: "\<forall>xs. ?tools ! 1 \<noteq> JArr xs" by simp
  have b: "\<forall>s members. ?tools ! 1 \<noteq> JObj s members" by simp
  have all: "\<forall>t\<in>set ?tools. (\<forall>xs. t \<noteq> JArr xs) \<and> (\<forall>s members. t \<noteq> JObj s members)" by simp
  from non_object_tool_carried_unchanged [OF c r t i a b, of 0] all
  have "simplify_tool 0 (?tools ! 1) = Some (?tools ! 1)"
    and "simplifyToolsListResponse 0 example_odd_tools \<noteq> None" by blast+
  then show ?thesis using c by simp
qed

text \<open>
  The rewrite where the simplifier returns. For a classified message on whose tool schemas
  the simplifier returns (with the given fuel), the interceptor returns and sends a
  message in which every field other than \<^verbatim>\<open>result\<close> is unchanged, every field of
  \<^verbatim>\<open>result\<close> other than \<^verbatim>\<open>tools\<close> is unchanged, and \<^verbatim>\<open>tools\<close> has the same length with,
  for each entry that is an object, the same other properties and as \<^verbatim>\<open>inputSchema\<close> the
  simplifier's output at \<^verbatim>\<open>maxDepth = 4\<close>, \<^verbatim>\<open>depth = 0\<close>, or
  \<^verbatim>\<open>{type: object, properties: {}}\<close> when the entry had none. The example message of the
  specification is rewritten as stated.
\<close>

theorem tools_list_rewritten_elementwise:
  assumes "isToolsListResponse message"
    and "get message ''result'' = Some result"
    and "get result ''tools'' = Some (JArr tools)"
    and "\<forall>t\<in>set tools. \<forall>s. inputSchema t = Some s \<longrightarrow> simplifySchemaForDatabricks fuel s 4 0 None \<noteq> None"
  shows "\<exists>out result' tools'.
      simplifyToolsListResponse fuel message = Some out
    \<and> wrapped_send fuel originalSend message = Some (originalSend out)
    \<and> inputSchema out = inputSchema message
    \<and> (\<forall>name. name \<noteq> ''result'' \<longrightarrow> get out name = get message name)
    \<and> get out ''result'' = Some result'
    \<and> inputSchema result' = inputSchema result
    \<and> (\<forall>name. name \<noteq> ''tools'' \<longrightarrow> get result' name = get result name)
    \<and> get result' ''tools'' = Some (JArr tools')
    \<and> length tools' = length tools
    \<and> (\<forall>i<length tools. truthy (tools ! i) \<and> typeof_object (tools ! i) \<longrightarrow>
          own_properties (tools' ! i) = own_properties (tools ! i)
        \<and> inputSchema (tools' ! i) =
            (case inputSchema (tools ! i) of
               None \<Rightarrow> Some (object_node [] None None None)
             | Some s \<Rightarrow> simplifySchemaForDatabricks fuel s 4 0 None))"
proof -
  from assms(2) obtain s members where msg: "message = JObj s members"
    using get_Some_object by blast
  from assms(3) obtain r rmembers where res: "result = JObj r rmembers"
    using get_Some_object by blast
  note run = simplifyToolsListResponse_classified [OF assms(2) [unfolded msg res] assms(3) [unfolded res], of fuel]
  have each: "simplify_tool fuel t \<noteq> None" if "t \<in> set tools" for t
  proof (cases "inputSchema t")
    case None
    then show ?thesis by (simp add: simplify_tool_def simplifyToolInputSchema_def)
  next
    case (Some sch)
    with assms(4) that have "simplifySchemaForDatabricks fuel sch 4 0 None \<noteq> None" by blast
    with Some show ?thesis by (auto simp: simplify_tool_def simplifyToolInputSchema_def)
  qed
  then have "\<forall>t\<in>set tools. simplify_tool fuel t \<noteq> None" by blast
  from map_tools_returns [OF this] obtain tools' where mapped: "map_tools (simplify_tool fuel) tools = Some tools'"
    by blast
  define result' where "result' = spread_with (JObj r rmembers) ''tools'' (JArr tools')"
  define out where "out = spread_with (JObj s members) ''result'' result'"
  have returned: "simplifyToolsListResponse fuel message = Some out"
    using run mapped by (simp add: msg out_def result'_def)
  have sent: "wrapped_send fuel originalSend message = Some (originalSend out)"
    using returned assms(1) by (simp add: wrapped_send_def)
  have m1: "inputSchema out = inputSchema message"
    by (simp add: out_def msg inputSchema_spread)
  have m2: "\<forall>name. name \<noteq> ''result'' \<longrightarrow> get out name = get message name"
    using get_spread_other [of _ "''result''" s members result'] by (simp add: out_def msg)
  have m3: "get out ''result'' = Some result'"
    by (simp add: out_def get_spread_same)
  have r1: "inputSchema result' = inputSchema result"
    by (simp add: result'_def res inputSchema_spread)
  have r2: "\<forall>name. name \<noteq> ''tools'' \<longrightarrow> get result' name = get result name"
    using get_spread_other [of _ "''tools''" r rmembers "JArr tools'"] by (simp add: result'_def res)
  have r3: "get result' ''tools'' = Some (JArr tools')"
    by (simp add: result'_def get_spread_same)
  from map_tools_Some [OF mapped] have len: "length tools' = length tools"
    and nth: "\<forall>i<length tools. simplify_tool fuel (tools ! i) = Some (tools' ! i)" by simp_all
  have entry: "own_properties (tools' ! i) = own_properties (tools ! i)
        \<and> inputSchema (tools' ! i) =
            (case inputSchema (tools ! i) of
               None \<Rightarrow> Some (object_node [] None None None)
             | Some s \<Rightarrow> simplifySchemaForDatabricks fuel s 4 0 None)"
    if i: "i < length tools" and obj: "truthy (tools ! i) \<and> typeof_object (tools ! i)" for i
  proof -
    from nth i have step: "simplify_tool fuel (tools ! i) = Some (tools' ! i)" by blast
    from step obj obtain simplified
      where simp: "simplifyToolInputSchema fuel (inputSchema (tools ! i)) = Some simplified"
        and eq: "tools' ! i = JObj (Some simplified) (own_properties (tools ! i))"
      by (auto simp: simplify_tool_def split: option.splits)
    from simp eq show ?thesis
      by (auto simp: simplifyToolInputSchema_def split: option.splits)
  qed
  from returned sent m1 m2 m3 r1 r2 r3 len entry show ?thesis by blast
qed

theorem tools_list_rewritten_elementwise_witness:
  "isToolsListResponse example_listing
   \<and> simplifyToolsListResponse 1 example_listing = Some example_listing_simplified
   \<and> wrapped_send 1 (\<lambda>m. [m]) example_listing = Some [example_listing_simplified]"
proof -
  let ?schema = "plain_node (Some (Tags [''string'', ''null''])) None None None None"
  let ?tools = "[JObj (Some ?schema) [(''name'', JStr ''x'')]]"
  let ?result = "JObj None [(''tools'', JArr ?tools)]"
  have c: "isToolsListResponse example_listing"
    by (simp add: example_listing_def isToolsListResponse_def truthy_def typeof_object_def truthy_opt_def)
  have r: "get example_listing ''result'' = Some ?result"
    by (simp add: example_listing_def)
  have t: "get ?result ''tools'' = Some (JArr ?tools)" by simp
  have computed: "simplifySchemaForDatabricks 1 ?schema 4 0 None
      = Some (plain_node (Some (Tag ''string'')) None None None None)"
    by (simp add: plain_node_def collect_defs_def normalize_node_def with_type_def
        normalizeType_def truthy_string_def primitive_def truthy_type_def empty_schema_def)
  from computed have ret: "\<forall>t\<in>set ?tools. \<forall>s. inputSchema t = Some s \<longrightarrow>
      simplifySchemaForDatabricks 1 s 4 0 None \<noteq> None" by simp
  from tools_list_rewritten_elementwise [OF c r t ret, of "\<lambda>m. [m]"]
  obtain out where out: "simplifyToolsListResponse 1 example_listing = Some out"
    and sent: "wrapped_send 1 (\<lambda>m. [m]) example_listing = Some [out]" by blast
  have "simplifyToolsListResponse 1 example_listing = Some example_listing_simplified"
    using computed
    by (simp add: simplifyToolsListResponse_def example_listing_def example_listing_simplified_def
        truthy_def typeof_object_def simplify_tool_def simplifyToolInputSchema_def spread_with_def)
  with out sent c show ?thesis by simp
qed

section \<open>Option merger: properties\<close>

lemmas node_defs = object_node_def array_node_def plain_node_def generic_object_def
  bare_object_def empty_schema_def string_schema_def number_schema_def

lemma merge_loop_skips:
  assumes "simplify opt = Some simplified" and "\<not> object_option simplified"
    and "hasObjectOptions \<or> (\<exists>p\<in>set before. \<exists>s. simplify p = Some s \<and> object_option s)"
  shows "merge_loop simplify (before @ opt # after) merged requiredSets hasObjectOptions
       = merge_loop simplify (before @ after) merged requiredSets hasObjectOptions"
  using assms(3)
proof (induction before arbitrary: merged requiredSets hasObjectOptions)
  case Nil
  then show ?case using assms(1,2) by simp
next
  case (Cons p ps)
  show ?case
  proof (cases "simplify p")
    case None
    then show ?thesis by simp
  next
    case (Some sp)
    show ?thesis
    proof (cases "object_option sp")
      case True
      then show ?thesis using Some Cons.IH [of True] by simp
    next
      case False
      with Cons.prems Some
      have "hasObjectOptions \<or> (\<exists>p\<in>set ps. \<exists>s. simplify p = Some s \<and> object_option s)"
        by auto
      from Cons.IH [OF this] show ?thesis using Some False by simp
    qed
  qed
qed

lemma merge_loop_returns_first_typed:
  assumes "simplify opt = Some simplified" and "\<not> object_option simplified"
    and "truthy_type (type simplified)"
    and "\<forall>p\<in>set before. \<exists>s. simplify p = Some s \<and> \<not> truthy_type (type s)"
  shows "merge_loop simplify (before @ opt # after) merged requiredSets False = Some simplified"
  using assms(4)
proof (induction before)
  case Nil
  then show ?case using assms(1,2,3) by simp
next
  case (Cons p ps)
  from Cons.prems obtain sp where sp: "simplify p = Some sp" and untyped: "\<not> truthy_type (type sp)"
    by auto
  from untyped have "\<not> object_option sp"
    by (auto simp: object_option_def truthy_type_def)
  with sp untyped Cons show ?case by simp
qed

text \<open>
  C9. Let an option simplify to a node with \<^verbatim>\<open>type: 'object'\<close> and no \<^verbatim>\<open>properties\<close>. If
  the walk reaches it before any object option (every earlier option simplified to a
  node without a truthy type, so the walk neither returned nor saw an object option),
  the merge returns exactly that node. If an earlier option simplified to a node with
  \<^verbatim>\<open>type: 'object'\<close> and \<^verbatim>\<open>properties\<close>, the merge gives what it gives without the
  option: the option adds nothing to the merged properties or the required sets.
\<close>

theorem propertyless_object_option:
  assumes "simplify opt maxDepth currentDepth (Some defs) = Some simplified"
    and "type simplified = Some (Tag ''object'')"
    and "properties simplified = None"
  shows "((\<forall>p\<in>set before. \<exists>s. simplify p maxDepth currentDepth (Some defs) = Some s \<and> \<not> truthy_type (type s))
        \<longrightarrow> mergeSchemaOptions simplify (before @ opt # after) maxDepth currentDepth defs = Some simplified)
    \<and> ((\<exists>p\<in>set before. \<exists>s. simplify p maxDepth currentDepth (Some defs) = Some s \<and> object_option s)
        \<longrightarrow> mergeSchemaOptions simplify (before @ opt # after) maxDepth currentDepth defs
          = mergeSchemaOptions simplify (before @ after) maxDepth currentDepth defs)"
proof -
  have not_obj: "\<not> object_option simplified"
    using assms(3) by (simp add: object_option_def)
  have typed: "truthy_type (type simplified)"
    using assms(2) by (simp add: truthy_type_def)
  show ?thesis
    unfolding mergeSchemaOptions_def
    using merge_loop_returns_first_typed [where simplify = "\<lambda>opt. simplify opt maxDepth currentDepth (Some defs)", OF assms(1) not_obj typed]
      merge_loop_skips [where simplify = "\<lambda>opt. simplify opt maxDepth currentDepth (Some defs)", OF assms(1) not_obj]
    by blast
qed

theorem propertyless_object_option_witness:
  "mergeSchemaOptions (simplifySchemaForDatabricks 2) [described_only, bare_object, variant_a] 4 0 [] = Some bare_object
   \<and> mergeSchemaOptions (simplifySchemaForDatabricks 2) [variant_a, bare_object, variant_b] 4 0 []
     = mergeSchemaOptions (simplifySchemaForDatabricks 2) [variant_a, variant_b] 4 0 []"
proof -
  have two: "(2::nat) = Suc (Suc 0)" by simp
  have bare: "simplifySchemaForDatabricks 2 bare_object 4 0 (Some []) = Some bare_object"
    unfolding two
    by (simp add: node_defs collect_defs_def normalize_node_def truthy_string_def primitive_def truthy_type_def)
  have t: "type bare_object = Some (Tag ''object'')" and n: "properties bare_object = None"
    by (simp_all add: bare_object_def)
  have described: "simplifySchemaForDatabricks 2 described_only 4 0 (Some []) = Some described_only"
    unfolding two
    by (simp add: node_defs described_only_def collect_defs_def normalize_node_def truthy_string_def
        primitive_def truthy_type_def)
  have va: "simplifySchemaForDatabricks 2 variant_a 4 0 (Some []) = Some (object_node [(''a'', string_schema)] (Some [''a'']) None None)"
    unfolding two
    by (simp add: node_defs variant_a_def collect_defs_def normalize_node_def truthy_string_def
        primitive_def truthy_type_def entries_def)
  have before1: "\<forall>p\<in>set [described_only]. \<exists>s. simplifySchemaForDatabricks 2 p 4 0 (Some []) = Some s \<and> \<not> truthy_type (type s)"
    using described by (simp add: described_only_def plain_node_def truthy_type_def)
  have before2: "\<exists>p\<in>set [variant_a]. \<exists>s. simplifySchemaForDatabricks 2 p 4 0 (Some []) = Some s \<and> object_option s"
    using va by (simp add: object_option_def object_node_def)
  from propertyless_object_option [where simplify = "simplifySchemaForDatabricks 2" and opt = bare_object
      and maxDepth = 4 and currentDepth = 0 and defs = "[]" and simplified = bare_object
      and before = "[described_only]" and after = "[variant_a]", OF bare t n] before1
  have first: "mergeSchemaOptions (simplifySchemaForDatabricks 2) [described_only, bare_object, variant_a] 4 0 [] = Some bare_object"
    by simp
  from propertyless_object_option [where simplify = "simplifySchemaForDatabricks 2" and opt = bare_object
      and maxDepth = 4 and currentDepth = 0 and defs = "[]" and simplified = bare_object
      and before = "[variant_a]" and after = "[variant_b]", OF bare t n] before2
  have second: "mergeSchemaOptions (simplifySchemaForDatabricks 2) [variant_a, bare_object, variant_b] 4 0 []
     = mergeSchemaOptions (simplifySchemaForDatabricks 2) [variant_a, variant_b] 4 0 []"
    by simp
  from first second show ?thesis by simp
qed

lemma set_new_Set_aux: "set (foldl (\<lambda>s x. if x \<in> set s then s else s @ [x]) acc xs) = set acc \<union> set xs"
  by (induction xs arbitrary: acc) auto

lemma set_new_Set: "set (new_Set xs) = set xs"
  by (simp add: new_Set_def set_new_Set_aux)

lemma set_finalRequired:
  "requiredSets \<noteq> [] \<Longrightarrow> set (finalRequired requiredSets) = (\<Inter>s\<in>set requiredSets. set s)"
  by (cases requiredSets) (auto simp: finalRequired_def list_all_iff)

lemma keys_merge_property: "fst ` set (merge_property merged key propSchema) = insert key (fst ` set merged)"
  by (induction merged key propSchema rule: merge_property.induct) auto

lemma keys_merge_properties:
  "fst ` set (merge_properties merged props) = fst ` set merged \<union> fst ` set props"
  unfolding merge_properties_def
proof (induction props arbitrary: merged)
  case Nil
  then show ?case by simp
next
  case (Cons entry props)
  obtain key propSchema where entry: "entry = (key, propSchema)" by (cases entry)
  have "foldl (\<lambda>merged (key, propSchema). merge_property merged key propSchema) merged (entry # props)
      = foldl (\<lambda>merged (key, propSchema). merge_property merged key propSchema)
          (merge_property merged key propSchema) props"
    by (simp add: entry)
  then have "fst ` set (foldl (\<lambda>merged (key, propSchema). merge_property merged key propSchema) merged (entry # props))
      = fst ` set (merge_property merged key propSchema) \<union> fst ` set props"
    by (simp only: Cons.IH)
  also have "\<dots> = fst ` set merged \<union> fst ` set (entry # props)"
    unfolding keys_merge_property by (simp add: entry)
  finally show ?case .
qed

lemma merge_loop_completes:
  assumes "map simplify options = map Some simplified"
    and "hasObjectOptions \<or> (\<forall>s\<in>set (takeWhile (\<lambda>s. \<not> object_option s) simplified). \<not> truthy_type (type s))"
  shows "merge_loop simplify options merged requiredSets hasObjectOptions =
     Some (merge_result
       (foldl merge_properties merged (map entries (filter object_option simplified)))
       (requiredSets @ map (\<lambda>s. new_Set (required_or_empty s)) (filter object_option simplified))
       (hasObjectOptions \<or> filter object_option simplified \<noteq> []))"
  using assms
proof (induction options arbitrary: simplified merged requiredSets hasObjectOptions)
  case Nil
  then show ?case by simp
next
  case (Cons opt rest)
  from Cons.prems(1) obtain s ss where simplified: "simplified = s # ss"
    and s: "simplify opt = Some s" and ss: "map simplify rest = map Some ss"
    by (cases simplified) auto
  show ?case
  proof (cases "object_option s")
    case True
    from Cons.IH [OF ss, of True] show ?thesis
      using s True simplified by simp
  next
    case False
    with Cons.prems(2) simplified have untyped: "hasObjectOptions \<or> \<not> truthy_type (type s)"
      and later: "hasObjectOptions \<or> (\<forall>s\<in>set (takeWhile (\<lambda>s. \<not> object_option s) ss). \<not> truthy_type (type s))"
      by auto
    from Cons.IH [OF ss later] show ?thesis
      using s False simplified untyped by auto
  qed
qed

lemma keys_foldl_merge:
  "fst ` set (foldl merge_properties merged propss) = fst ` set merged \<union> (\<Union>props\<in>set propss. fst ` set props)"
  by (induction propss arbitrary: merged) (auto simp: keys_merge_properties)

lemma set_finalRequired_map:
  "xs \<noteq> [] \<Longrightarrow> set (finalRequired (map (\<lambda>s. new_Set (g s)) xs)) = (\<Inter>s\<in>set xs. set (g s))"
proof -
  assume "xs \<noteq> []"
  then have "map (\<lambda>s. new_Set (g s)) xs \<noteq> []" by simp
  from set_finalRequired [OF this]
  have "set (finalRequired (map (\<lambda>s. new_Set (g s)) xs)) = (\<Inter>s\<in>set (map (\<lambda>s. new_Set (g s)) xs). set s)" .
  also have "\<dots> = (\<Inter>s\<in>set xs. set (g s))"
    by (simp add: set_new_Set)
  finally show ?thesis .
qed

text \<open>
  C5 (as amended). When the walk of the options runs to its end (every option simplifies,
  and no option before the first object option has a truthy type) and has seen an object
  option, the merge returns an object node whose \<^verbatim>\<open>required\<close> is the intersection of the
  required sets of the object options, left out when the intersection is empty, and
  whose properties are those of all object options together. A property that some
  object option lacks is not in the merged \<^verbatim>\<open>required\<close> provided every object option
  requires only properties it has.
\<close>

theorem required_is_intersection:
  assumes "map (\<lambda>opt. simplify opt maxDepth currentDepth (Some defs)) options = map Some simplified"
    and "\<forall>s\<in>set (takeWhile (\<lambda>s. \<not> object_option s) simplified). \<not> truthy_type (type s)"
    and "filter object_option simplified \<noteq> []"
  shows "\<exists>merged. mergeSchemaOptions simplify options maxDepth currentDepth defs = Some merged
    \<and> type merged = Some (Tag ''object'')
    \<and> set (required_or_empty merged) = (\<Inter>s\<in>set (filter object_option simplified). set (required_or_empty s))
    \<and> (required merged = None \<longleftrightarrow> (\<Inter>s\<in>set (filter object_option simplified). set (required_or_empty s)) = {})
    \<and> fst ` set (entries merged) = (\<Union>s\<in>set (filter object_option simplified). fst ` set (entries s))
    \<and> ((\<forall>s\<in>set (filter object_option simplified). set (required_or_empty s) \<subseteq> fst ` set (entries s)) \<longrightarrow>
         (\<forall>name\<in>set (required_or_empty merged). \<forall>s\<in>set (filter object_option simplified). name \<in> fst ` set (entries s)))"
proof -
  define objs where "objs = filter object_option simplified"
  define sets where "sets = map (\<lambda>s. new_Set (required_or_empty s)) objs"
  define props where "props = foldl merge_properties [] (map entries objs)"
  define merged where "merged = merge_result props sets True"
  define R where "R = (\<Inter>s\<in>set objs. set (required_or_empty s))"
  from assms(3) have nonempty: "objs \<noteq> []" by (simp add: objs_def)
  from merge_loop_completes [OF assms(1), of False "[]" "[]"] assms(2) nonempty
  have run: "mergeSchemaOptions simplify options maxDepth currentDepth defs = Some merged"
    by (simp add: mergeSchemaOptions_def merged_def props_def sets_def objs_def)
  have final: "set (finalRequired sets) = R"
    unfolding sets_def R_def using nonempty by (rule set_finalRequired_map)
  have merged_eq: "merged = object_node props
        (if finalRequired sets \<noteq> [] then Some (finalRequired sets) else None) None None"
    by (simp add: merged_def merge_result_def)
  have req: "set (required_or_empty merged) = R"
    using final by (auto simp: merged_eq object_node_def required_or_empty_def)
  have omitted: "required merged = None \<longleftrightarrow> R = {}"
    using final by (auto simp: merged_eq object_node_def)
  have ty: "type merged = Some (Tag ''object'')"
    by (simp add: merged_eq object_node_def)
  have keys: "fst ` set (entries merged) = (\<Union>s\<in>set objs. fst ` set (entries s))"
    by (simp add: merged_eq object_node_def entries_def props_def keys_foldl_merge)
  have never: "\<forall>name\<in>set (required_or_empty merged). \<forall>s\<in>set objs. name \<in> fst ` set (entries s)"
    if "\<forall>s\<in>set objs. set (required_or_empty s) \<subseteq> fst ` set (entries s)"
    using that unfolding req R_def by blast
  show ?thesis
    unfolding objs_def [symmetric] R_def [symmetric]
    using run ty req omitted keys never by (intro exI [of _ merged]) simp
qed

theorem required_is_intersection_witness:
  "\<exists>merged. mergeSchemaOptions (simplifySchemaForDatabricks 2) [variant_a, variant_ab] 4 0 [] = Some merged
     \<and> type merged = Some (Tag ''object'') \<and> required merged = None
     \<and> fst ` set (entries merged) = {''a'', ''b''}"
proof -
  have two: "(2::nat) = Suc (Suc 0)" by simp
  have va: "simplifySchemaForDatabricks 2 variant_a 4 0 (Some []) = Some variant_a"
    unfolding two
    by (simp add: node_defs variant_a_def collect_defs_def normalize_node_def truthy_string_def
        primitive_def truthy_type_def entries_def)
  have vab: "simplifySchemaForDatabricks 2 variant_ab 4 0 (Some []) = Some variant_ab"
    unfolding two
    by (simp add: node_defs variant_ab_def collect_defs_def normalize_node_def truthy_string_def
        primitive_def truthy_type_def entries_def)
  have oa: "object_option variant_a" and oab: "object_option variant_ab"
    by (simp_all add: object_option_def variant_a_def variant_ab_def object_node_def)
  have all: "map (\<lambda>opt. simplifySchemaForDatabricks 2 opt 4 0 (Some [])) [variant_a, variant_ab]
      = map Some [variant_a, variant_ab]"
    using va vab by simp
  have walk: "\<forall>s\<in>set (takeWhile (\<lambda>s. \<not> object_option s) [variant_a, variant_ab]). \<not> truthy_type (type s)"
    using oa by simp
  have some: "filter object_option [variant_a, variant_ab] \<noteq> []"
    using oa by simp
  have objs: "filter object_option [variant_a, variant_ab] = [variant_a, variant_ab]"
    using oa oab by simp
  have none_required: "(\<Inter>s\<in>set [variant_a, variant_ab]. set (required_or_empty s)) = {}"
    by (simp add: required_or_empty_def variant_a_def variant_ab_def object_node_def)
  have e1: "entries variant_a = [(''a'', string_schema)]"
    and e2: "entries variant_ab = [(''a'', string_schema), (''b'', number_schema)]"
    by (simp_all add: entries_def variant_a_def variant_ab_def object_node_def)
  have all_keys: "(\<Union>s\<in>set [variant_a, variant_ab]. fst ` set (entries s)) = {''a'', ''b''}"
    by (auto simp: e1 e2)
  from required_is_intersection [where simplify = "simplifySchemaForDatabricks 2" and maxDepth = 4
      and currentDepth = 0 and defs = "[]", OF all walk some]
  obtain merged where run: "mergeSchemaOptions (simplifySchemaForDatabricks 2) [variant_a, variant_ab] 4 0 [] = Some merged"
    and ty: "type merged = Some (Tag ''object'')"
    and omitted: "required merged = None \<longleftrightarrow>
        (\<Inter>s\<in>set (filter object_option [variant_a, variant_ab]). set (required_or_empty s)) = {}"
    and keys: "fst ` set (entries merged) =
        (\<Union>s\<in>set (filter object_option [variant_a, variant_ab]). fst ` set (entries s))"
    by (elim exE conjE) (rule that, assumption+)
  have "required merged = None"
    using omitted unfolding objs none_required by simp
  moreover have "fst ` set (entries merged) = {''a'', ''b''}"
    using keys unfolding objs all_keys .
  ultimately show ?thesis using run ty by blast
qed

text \<open>
  C5 as stated fails: in \<open>required_clash\<close> the property \<^verbatim>\<open>a\<close> is present in the first
  object variant only, the second variant lists it in \<^verbatim>\<open>required\<close> without having it,
  and the merged node requires \<^verbatim>\<open>a\<close>.
\<close>

theorem absent_property_required_counterexample:
  "simplifySchemaForDatabricks 3 required_clash 4 0 None
     = Some (object_node [(''a'', string_schema), (''b'', number_schema)] (Some [''a'']) None None)
   \<and> simplifySchemaForDatabricks 2 variant_b 4 0 (Some []) = Some variant_b
   \<and> ''a'' \<notin> fst ` set (entries variant_b)"
proof -
  have three: "(3::nat) = Suc (Suc (Suc 0))" and two: "(2::nat) = Suc (Suc 0)" by simp_all
  have merged: "simplifySchemaForDatabricks 3 required_clash 4 0 None
     = Some (object_node [(''a'', string_schema), (''b'', number_schema)] (Some [''a'']) None None)"
    unfolding three
    by (simp add: node_defs required_clash_def variant_a_def variant_b_def collect_defs_def
        normalize_node_def truthy_string_def primitive_def truthy_type_def entries_def
        mergeSchemaOptions_def object_option_def merge_properties_def new_Set_def
        required_or_empty_def merge_result_def finalRequired_def object_prototype_names_def)
  have vb: "simplifySchemaForDatabricks 2 variant_b 4 0 (Some []) = Some variant_b"
    unfolding two
    by (simp add: node_defs variant_b_def collect_defs_def normalize_node_def truthy_string_def
        primitive_def truthy_type_def entries_def)
  have absent: "''a'' \<notin> fst ` set (entries variant_b)"
    by (simp add: entries_def variant_b_def object_node_def)
  from merged vb absent show ?thesis by simp
qed

section \<open>Schema simplifier: properties\<close>

lemma ref_normalize_node: "ref (normalize_node schema) = ref schema"
  by (simp add: normalize_node_def with_type_def split: option.splits type_value.splits)

lemma simplify_overflow:
  "maxDepth < currentDepth \<Longrightarrow>
     simplifySchemaForDatabricks (Suc fuel) schema maxDepth currentDepth defs_arg = Some generic_object"
  by simp

lemma simplify_reference:
  assumes "\<not> maxDepth < currentDepth" and "ref schema = Some r" and "r \<noteq> []"
  shows "simplifySchemaForDatabricks (Suc fuel) schema maxDepth currentDepth defs_arg =
     (case get_member (collect_defs defs_arg schema) (refPath r) of
        Own refSchema \<Rightarrow>
          simplifySchemaForDatabricks fuel refSchema maxDepth currentDepth (Some (collect_defs defs_arg schema))
      | Inherited \<Rightarrow> Some bare_object
      | Missing \<Rightarrow> Some generic_object)"
  using assms by (simp add: ref_normalize_node truthy_string_def Let_def)

lemma remove_first_prefix: "pat \<noteq> [] \<Longrightarrow> remove_first pat (pat @ rest) = rest"
  by (cases pat) simp_all

lemma remove_first_absent: "c \<notin> set str \<Longrightarrow> remove_first (c # pat) str = str"
  by (induction str) auto

lemma refPath_local:
  assumes "CHR ''#'' \<notin> set name"
  shows "refPath (''#/$defs/'' @ name) = name" and "refPath (''#/definitions/'' @ name) = name"
proof -
  have "remove_first ''#/$defs/'' (''#/$defs/'' @ name) = name"
    by (rule remove_first_prefix) simp
  moreover have "remove_first ''#/definitions/'' name = name"
    using assms by (simp add: remove_first_absent)
  ultimately show "refPath (''#/$defs/'' @ name) = name"
    by (simp add: refPath_def)
  have "CHR ''#'' \<notin> set (''/definitions/'' @ name)" using assms by simp
  from remove_first_absent [OF this, of "''/$defs/''"]
  have "remove_first ''#/$defs/'' (''/definitions/'' @ name) = ''/definitions/'' @ name" .
  then have "remove_first ''#/$defs/'' (''#/definitions/'' @ name) = ''#/definitions/'' @ name"
    by simp
  moreover have "remove_first ''#/definitions/'' (''#/definitions/'' @ name) = name"
    by (rule remove_first_prefix) simp
  ultimately show "refPath (''#/definitions/'' @ name) = name"
    by (simp add: refPath_def)
qed

lemma returns_overflow:
  "maxDepth < currentDepth \<Longrightarrow> returns schema maxDepth currentDepth defs_arg result \<longleftrightarrow> result = generic_object"
proof
  assume over: "maxDepth < currentDepth" and "returns schema maxDepth currentDepth defs_arg result"
  then obtain fuel where run: "simplifySchemaForDatabricks fuel schema maxDepth currentDepth defs_arg = Some result"
    by (auto simp: returns_def)
  then obtain n where "fuel = Suc n" by (cases fuel) auto
  with run over show "result = generic_object" by (simp del: simplifySchemaForDatabricks.simps add: simplify_overflow)
next
  assume "maxDepth < currentDepth" and "result = generic_object"
  then have "simplifySchemaForDatabricks (Suc 0) schema maxDepth currentDepth defs_arg = Some result"
    by (simp del: simplifySchemaForDatabricks.simps add: simplify_overflow)
  then show "returns schema maxDepth currentDepth defs_arg result"
    unfolding returns_def by blast
qed

lemma without_ref_sel:
  "type (without_ref s) = type s" "properties (without_ref s) = properties s"
  "items (without_ref s) = items s" "required (without_ref s) = required s"
  "anyOf (without_ref s) = anyOf s" "oneOf (without_ref s) = oneOf s" "allOf (without_ref s) = allOf s"
  "ref (without_ref s) = None" "dollar_defs (without_ref s) = dollar_defs s"
  "definitions (without_ref s) = definitions s" "description (without_ref s) = description s"
  "additionalProperties (without_ref s) = additionalProperties s"
  "entries (without_ref s) = entries s" "primitive (without_ref s) = primitive s"
  by (simp_all add: without_ref_def entries_def primitive_def)

lemma collect_defs_without_ref: "collect_defs defs_arg (without_ref s) = collect_defs defs_arg s"
  by (simp add: collect_defs_def without_ref_sel split: option.splits)

lemma normalize_without_ref: "normalize_node (without_ref s) = without_ref (normalize_node s)"
  by (simp add: normalize_node_def without_ref_def with_type_def split: option.splits type_value.splits)

lemma simplify_empty_ref:
  assumes "ref schema = Some []"
  shows "simplifySchemaForDatabricks fuel schema maxDepth d defs_arg
       = simplifySchemaForDatabricks fuel (without_ref schema) maxDepth d defs_arg"
proof (cases fuel)
  case 0
  then show ?thesis by simp
next
  case (Suc n)
  have falsy: "\<not> truthy_string (ref (normalize_node schema))"
    using assms by (simp add: ref_normalize_node truthy_string_def)
  have none: "\<not> truthy_string (ref (without_ref (normalize_node schema)))"
    by (simp add: without_ref_sel truthy_string_def)
  show ?thesis unfolding Suc
    using falsy none
    by (auto simp: normalize_without_ref without_ref_sel collect_defs_without_ref Let_def
        split: option.splits)
qed

text \<open>
  C6 (as amended). Let a node carry a \<^verbatim>\<open>$ref\<close>. If the reference string is not empty, let
  the name be what the two replacements leave of it; for \<^verbatim>\<open>#/$defs/NAME\<close> and
  \<^verbatim>\<open>#/definitions/NAME\<close> with no \<^verbatim>\<open>#\<close> in \<^verbatim>\<open>NAME\<close> it is \<^verbatim>\<open>NAME\<close>. If the name is a key of
  the reference table, the call returns exactly what the call on the referenced node
  returns at the same depth and with the same table. If the name is not a key of the
  table and not a name inherited from \<^verbatim>\<open>Object.prototype\<close>, the result is
  \<^verbatim>\<open>{type: object, additionalProperties: true}\<close>. If the reference string is empty, the
  node is treated as having no \<^verbatim>\<open>$ref\<close>: the call does what it does on the node without
  the reference, with any fuel. The root with \<^verbatim>\<open>$defs: {Point: ...}\<close> has its field
  \<^verbatim>\<open>{$ref: "#/$defs/Point"}\<close> replaced by the simplified \<^verbatim>\<open>Point\<close>.
\<close>

theorem reference_resolution:
  assumes "ref schema = Some r"
  shows "(r \<noteq> [] \<and> map_of (collect_defs defs_arg schema) (refPath r) = Some target \<longrightarrow>
           (\<forall>result. returns schema maxDepth currentDepth defs_arg result
              \<longleftrightarrow> returns target maxDepth currentDepth (Some (collect_defs defs_arg schema)) result))
    \<and> (r \<noteq> [] \<and> map_of (collect_defs defs_arg schema) (refPath r) = None
          \<and> refPath r \<notin> set object_prototype_names \<longrightarrow>
           simplifySchemaForDatabricks (Suc fuel) schema maxDepth currentDepth defs_arg = Some generic_object)
    \<and> (r = [] \<longrightarrow>
           simplifySchemaForDatabricks fuel schema maxDepth currentDepth defs_arg
             = simplifySchemaForDatabricks fuel (without_ref schema) maxDepth currentDepth defs_arg)
    \<and> (CHR ''#'' \<notin> set name \<longrightarrow>
           refPath (''#/$defs/'' @ name) = name \<and> refPath (''#/definitions/'' @ name) = name)
    \<and> simplifySchemaForDatabricks 4 root_with_point 4 0 None
         = Some (object_node [(''origin'', point_schema)] None None None)"
proof -
  let ?refs = "collect_defs defs_arg schema"
  have found: "returns schema maxDepth currentDepth defs_arg result
      \<longleftrightarrow> returns target maxDepth currentDepth (Some ?refs) result"
    if nonempty: "r \<noteq> []" and own: "map_of ?refs (refPath r) = Some target" for result
  proof (cases "maxDepth < currentDepth")
    case True
    then show ?thesis by (simp add: returns_overflow)
  next
    case False
    have step: "simplifySchemaForDatabricks (Suc n) schema maxDepth currentDepth defs_arg
        = simplifySchemaForDatabricks n target maxDepth currentDepth (Some ?refs)" for n
      using simplify_reference [OF False assms nonempty, of n defs_arg] own
      by (simp add: get_member_def)
    show ?thesis
    proof
      assume "returns schema maxDepth currentDepth defs_arg result"
      then obtain m where run: "simplifySchemaForDatabricks m schema maxDepth currentDepth defs_arg = Some result"
        by (auto simp: returns_def)
      then obtain n where "m = Suc n" by (cases m) auto
      with run step [of n] have "simplifySchemaForDatabricks n target maxDepth currentDepth (Some ?refs) = Some result"
        by simp
      then show "returns target maxDepth currentDepth (Some ?refs) result"
        unfolding returns_def by blast
    next
      assume "returns target maxDepth currentDepth (Some ?refs) result"
      then obtain n where "simplifySchemaForDatabricks n target maxDepth currentDepth (Some ?refs) = Some result"
        by (auto simp: returns_def)
      with step [of n] have "simplifySchemaForDatabricks (Suc n) schema maxDepth currentDepth defs_arg = Some result"
        by simp
      then show "returns schema maxDepth currentDepth defs_arg result"
        unfolding returns_def by blast
    qed
  qed
  have missing: "simplifySchemaForDatabricks (Suc fuel) schema maxDepth currentDepth defs_arg = Some generic_object"
    if "r \<noteq> [] \<and> map_of ?refs (refPath r) = None \<and> refPath r \<notin> set object_prototype_names"
  proof (cases "maxDepth < currentDepth")
    case True
    then show ?thesis by (rule simplify_overflow)
  next
    case False
    from that have nonempty: "r \<noteq> []" by simp
    from simplify_reference [OF False assms nonempty, of fuel defs_arg] that show ?thesis
      by (simp add: get_member_def)
  qed
  have empty: "simplifySchemaForDatabricks fuel schema maxDepth currentDepth defs_arg
             = simplifySchemaForDatabricks fuel (without_ref schema) maxDepth currentDepth defs_arg"
    if "r = []"
    using assms that by (intro simplify_empty_ref) simp
  have four: "(4::nat) = Suc (Suc (Suc (Suc 0)))" by simp
  have example: "simplifySchemaForDatabricks 4 root_with_point 4 0 None
         = Some (object_node [(''origin'', point_schema)] None None None)"
    unfolding four
    by (simp add: node_defs root_with_point_def point_schema_def ref_node_def collect_defs_def
        normalize_node_def truthy_string_def primitive_def truthy_type_def entries_def
        refPath_def get_member_def)
  from found missing empty refPath_local [of name] example show ?thesis by blast
qed

theorem reference_resolution_witness:
  "returns (ref_node ''#/$defs/Point'') 4 1 (Some [(''Point'', point_schema)]) point_schema
   \<and> simplifySchemaForDatabricks 1 (ref_node ''#/$defs/Gone'') 4 1 (Some [(''Point'', point_schema)])
       = Some generic_object
   \<and> simplifySchemaForDatabricks 1 (ref_node []) 4 1 (Some [(''Point'', point_schema)])
       = simplifySchemaForDatabricks 1 (without_ref (ref_node [])) 4 1 (Some [(''Point'', point_schema)])
   \<and> simplifySchemaForDatabricks 1 (ref_node []) 4 1 (Some [(''Point'', point_schema)]) = Some bare_object
   \<and> refPath ''#/definitions/Point'' = ''Point''"
proof -
  let ?refs = "[(''Point'', point_schema)]"
  have r: "ref (ref_node ''#/$defs/Point'') = Some ''#/$defs/Point''"
    and g: "ref (ref_node ''#/$defs/Gone'') = Some ''#/$defs/Gone''"
    and e: "ref (ref_node []) = Some []"
    by (simp_all add: ref_node_def)
  have c: "collect_defs (Some ?refs) s = ?refs" for s by (simp add: collect_defs_def)
  have p: "refPath ''#/$defs/Point'' = ''Point''" and q: "refPath ''#/$defs/Gone'' = ''Gone''"
    by (simp_all add: refPath_def)
  have own: "''#/$defs/Point'' \<noteq> []
      \<and> map_of (collect_defs (Some ?refs) (ref_node ''#/$defs/Point'')) (refPath ''#/$defs/Point'') = Some point_schema"
    by (simp add: c p)
  have gone: "''#/$defs/Gone'' \<noteq> []
      \<and> map_of (collect_defs (Some ?refs) (ref_node ''#/$defs/Gone'')) (refPath ''#/$defs/Gone'') = None
      \<and> refPath ''#/$defs/Gone'' \<notin> set object_prototype_names"
    by (simp add: c q object_prototype_names_def)
  have hash: "CHR ''#'' \<notin> set ''Point''" by simp
  have two: "(2::nat) = Suc (Suc 0)" by simp
  have "simplifySchemaForDatabricks 2 point_schema 4 1 (Some ?refs) = Some point_schema"
    unfolding two
    by (simp add: node_defs point_schema_def collect_defs_def normalize_node_def truthy_string_def
        primitive_def truthy_type_def entries_def)
  then have target: "returns point_schema 4 1 (Some ?refs) point_schema"
    unfolding returns_def by blast
  from reference_resolution [OF r, of "Some ?refs" point_schema 4 1 0 "''Point''"] own target hash
  have a: "returns (ref_node ''#/$defs/Point'') 4 1 (Some ?refs) point_schema"
    and b: "refPath ''#/definitions/Point'' = ''Point''"
    by (simp_all add: c)
  from reference_resolution [OF g, of "Some ?refs" point_schema 4 1 0 "''Point''"] gone
  have m: "simplifySchemaForDatabricks (Suc 0) (ref_node ''#/$defs/Gone'') 4 1 (Some ?refs) = Some generic_object"
    by blast
  from reference_resolution [OF e, of "Some ?refs" point_schema 4 1 1 "''Point''"]
  have n: "simplifySchemaForDatabricks 1 (ref_node []) 4 1 (Some ?refs)
       = simplifySchemaForDatabricks 1 (without_ref (ref_node [])) 4 1 (Some ?refs)"
    by blast
  have "simplifySchemaForDatabricks 1 (without_ref (ref_node [])) 4 1 (Some ?refs) = Some bare_object"
    by (simp add: without_ref_def ref_node_def collect_defs_def normalize_node_def truthy_string_def
        primitive_def truthy_type_def node_defs)
  with a b m n show ?thesis by simp
qed

text \<open>
  C6 as stated fails for the empty reference string: the node \<^verbatim>\<open>{$ref: ""}\<close> carries a
  \<^verbatim>\<open>$ref\<close> whose name is in no table, but the empty string is falsy, the reference
  branch is not taken, and the result is \<^verbatim>\<open>{type: 'object'}\<close>.
\<close>

theorem empty_reference_counterexample:
  "ref (ref_node []) = Some []
   \<and> map_of [] (refPath []) = (None :: schema option)
   \<and> simplifySchemaForDatabricks 1 (ref_node []) 4 0 (Some []) = Some bare_object
   \<and> bare_object \<noteq> generic_object"
  by (simp add: ref_node_def refPath_def collect_defs_def normalize_node_def truthy_string_def
      primitive_def truthy_type_def node_defs)

lemma self_reference_diverges:
  "simplifySchemaForDatabricks fuel (ref_node ''#/$defs/A'') 4 0 (Some [(''A'', ref_node ''#/$defs/A'')]) = None"
proof (induction fuel)
  case 0
  show ?case by simp
next
  case (Suc fuel)
  have "ref (ref_node ''#/$defs/A'') = Some ''#/$defs/A''" by (simp add: ref_node_def)
  from simplify_reference [OF _ this, of 4 0 fuel "Some [(''A'', ref_node ''#/$defs/A'')]"] Suc
  show ?case
    by (simp del: simplifySchemaForDatabricks.simps add: refPath_def get_member_def collect_defs_def)
qed

lemma cyclic_root_diverges:
  "simplifySchemaForDatabricks fuel cyclic_root 4 0 None = None"
proof (cases fuel)
  case 0
  then show ?thesis by simp
next
  case (Suc n)
  have "ref cyclic_root = Some ''#/$defs/A''" by (simp add: cyclic_root_def)
  from simplify_reference [OF _ this, of 4 0 n None] self_reference_diverges [of n]
  show ?thesis unfolding Suc
    by (simp del: simplifySchemaForDatabricks.simps
        add: refPath_def get_member_def collect_defs_def cyclic_root_def)
qed

text \<open>
  C2 fails at \<open>cyclic_root\<close>, whose reference \<^verbatim>\<open>A\<close> resolves to a node that refers to
  \<^verbatim>\<open>A\<close> again: the reference branch recurses at the same depth, the depth guard is
  never reached, and no amount of fuel gives a result.
\<close>

theorem cyclic_reference_never_returns:
  "\<forall>fuel. simplifySchemaForDatabricks fuel cyclic_root 4 0 None = None"
  using cyclic_root_diverges by blast

theorem cyclic_reference_never_returns_witness:
  "simplifySchemaForDatabricks 1000 cyclic_root 4 0 None = None"
  using cyclic_reference_never_returns by blast

text \<open>
  C4 fails at \<open>cyclic_listing\<close>, a classified message whose tool has the cyclic schema as
  its \<^verbatim>\<open>inputSchema\<close>: the call of the simplifier inside the interceptor does not return
  (the defect of C2), so the interceptor produces no copy and the underlying send
  operation is never called.
\<close>

theorem cyclic_tool_schema_nothing_sent:
  "isToolsListResponse cyclic_listing
   \<and> (\<forall>fuel. simplifyToolsListResponse fuel cyclic_listing = None)
   \<and> (\<forall>fuel. wrapped_send fuel originalSend cyclic_listing = None)"
proof -
  have classified: "isToolsListResponse cyclic_listing"
    by (simp add: cyclic_listing_def isToolsListResponse_def truthy_def typeof_object_def truthy_opt_def)
  have rewrite: "simplifyToolsListResponse fuel cyclic_listing = None" for fuel
    using cyclic_root_diverges [of fuel]
    by (simp add: simplifyToolsListResponse_def cyclic_listing_def truthy_def typeof_object_def
        simplify_tool_def simplifyToolInputSchema_def)
  have "wrapped_send fuel originalSend cyclic_listing = None" for fuel
    using classified rewrite [of fuel] by (simp add: wrapped_send_def)
  with classified rewrite show ?thesis by blast
qed

theorem cyclic_tool_schema_nothing_sent_witness:
  "isToolsListResponse cyclic_listing
   \<and> simplifyToolsListResponse 1000 cyclic_listing = None
   \<and> wrapped_send 1000 (\<lambda>m. [m]) cyclic_listing = None"
  using cyclic_tool_schema_nothing_sent [of "\<lambda>m. [m]"] by blast

text \<open>
  C1 fails at \<open>open_object\<close>: the object branch copies \<^verbatim>\<open>additionalProperties\<close> as it is,
  so the result still holds the node \<^verbatim>\<open>{$ref: "#/$defs/Point"}\<close> under it.
\<close>

theorem additionalProperties_carried_unsimplified:
  "simplifySchemaForDatabricks (Suc fuel) open_object 4 0 None = Some open_object
   \<and> additionalProperties open_object = Some (Inr (ref_node ''#/$defs/Point''))
   \<and> ref (ref_node ''#/$defs/Point'') = Some ''#/$defs/Point''"
  by (simp add: open_object_def ref_node_def node_defs collect_defs_def normalize_node_def
      truthy_string_def entries_def)


theorem additionalProperties_carried_unsimplified_witness:
  "simplifySchemaForDatabricks 1 open_object 4 0 None = Some open_object"
  using additionalProperties_carried_unsimplified [of 0] by simp

section \<open>Shape of the results and the second application\<close>

lemma type_normalize_node: "type (normalize_node schema) \<noteq> Some (Tags ts)"
  by (auto simp: normalize_node_def with_type_def normalizeType_def split: option.splits type_value.splits list.splits)

lemma simplify_Suc_cases:
  assumes "simplifySchemaForDatabricks (Suc n) schema maxDepth d defs_arg = Some y"
  obtains (overflow) "maxDepth < d" "y = generic_object"
  | (own) r refSchema where "\<not> maxDepth < d" "ref schema = Some r" "r \<noteq> []"
      "map_of (collect_defs defs_arg schema) (refPath r) = Some refSchema"
      "simplifySchemaForDatabricks n refSchema maxDepth d (Some (collect_defs defs_arg schema)) = Some y"
  | (inherited) "\<not> maxDepth < d" "y = bare_object"
  | (missing) "\<not> maxDepth < d" "y = generic_object"
  | (merge) options where "\<not> maxDepth < d"
      "mergeSchemaOptions (simplifySchemaForDatabricks n) options maxDepth d (collect_defs defs_arg schema) = Some y"
  | (object) simplifiedProperties where "\<not> maxDepth < d"
      "simplify_properties (\<lambda>p. simplifySchemaForDatabricks n p maxDepth (d + 1) (Some (collect_defs defs_arg schema)))
         (entries (normalize_node schema)) = Some simplifiedProperties"
      "y = object_node simplifiedProperties (required (normalize_node schema))
         (if truthy_string (description (normalize_node schema)) then description (normalize_node schema) else None)
         (additionalProperties (normalize_node schema))"
  | (array) itemSchema simplifiedItems where "\<not> maxDepth < d"
      "simplifySchemaForDatabricks n itemSchema maxDepth (d + 1) (Some (collect_defs defs_arg schema)) = Some simplifiedItems"
      "y = array_node simplifiedItems
         (if truthy_string (description (normalize_node schema)) then description (normalize_node schema) else None)"
  | (primitive) "\<not> maxDepth < d" "y = primitive (normalize_node schema)"
proof (cases "maxDepth < d")
  case True
  with assms overflow show ?thesis by simp
next
  case False
  note depth = False
  show ?thesis
  proof (cases "truthy_string (ref (normalize_node schema))")
    case True
    then obtain r where r: "ref schema = Some r" "r \<noteq> []"
      by (auto simp: truthy_string_def ref_normalize_node split: option.splits)
    from simplify_reference [OF depth r, of n defs_arg] assms
    show ?thesis
      using own [OF depth r] inherited [OF depth] missing [OF depth]
      by (auto simp del: simplifySchemaForDatabricks.simps simp: get_member_def split: option.splits if_splits)
  next
    case False
    note noref = False
    show ?thesis
    proof (cases "anyOf (normalize_node schema) \<noteq> None \<or> oneOf (normalize_node schema) \<noteq> None")
      case True
      with assms depth noref merge [OF depth] show ?thesis
        by (simp add: Let_def)
    next
      case False
      note nounion = False
      show ?thesis
      proof (cases "allOf (normalize_node schema) \<noteq> None")
        case True
        with assms depth noref nounion merge [OF depth] show ?thesis
          by (simp add: Let_def)
      next
        case False
        note noall = False
        show ?thesis
        proof (cases "type (normalize_node schema) = Some (Tag ''object'') \<and> properties (normalize_node schema) \<noteq> None")
          case True
          with assms depth noref nounion noall object [OF depth] show ?thesis
            by (simp add: Let_def split: option.splits)
        next
          case False
          note noobj = False
          show ?thesis
          proof (cases "type (normalize_node schema) = Some (Tag ''array'') \<and> items (normalize_node schema) \<noteq> None")
            case True
            with assms depth noref nounion noall noobj array [OF depth] show ?thesis
              by (simp add: Let_def split: option.splits)
          next
            case False
            with assms depth noref nounion noall noobj primitive [OF depth] show ?thesis
              by (auto simp: Let_def split: if_splits)
          qed
        qed
      qed
    qed
  qed
qed

lemma output_form_generic: "output_form k generic_object"
  by (cases k) simp_all

lemma plain_node_sel:
  "type (plain_node t e c d v) = t" "enum_values (plain_node t e c d v) = e"
  "const (plain_node t e c d v) = c" "description (plain_node t e c d v) = d"
  "default_value (plain_node t e c d v) = v" "properties (plain_node t e c d v) = None"
  "items (plain_node t e c d v) = None" "ref (plain_node t e c d v) = None"
  "anyOf (plain_node t e c d v) = None" "oneOf (plain_node t e c d v) = None"
  "allOf (plain_node t e c d v) = None" "additionalProperties (plain_node t e c d v) = None"
  "required (plain_node t e c d v) = None"
  by (simp_all add: plain_node_def)

lemma object_node_sel:
  "type (object_node ps r d a) = Some (Tag ''object'')" "properties (object_node ps r d a) = Some ps"
  "required (object_node ps r d a) = r" "description (object_node ps r d a) = d"
  "additionalProperties (object_node ps r d a) = a" "items (object_node ps r d a) = None"
  "ref (object_node ps r d a) = None" "anyOf (object_node ps r d a) = None"
  "oneOf (object_node ps r d a) = None" "allOf (object_node ps r d a) = None"
  "entries (object_node ps r d a) = ps"
  by (simp_all add: object_node_def entries_def)

lemma array_node_sel:
  "type (array_node i d) = Some (Tag ''array'')" "properties (array_node i d) = None"
  "items (array_node i d) = Some i" "description (array_node i d) = d"
  "ref (array_node i d) = None" "anyOf (array_node i d) = None"
  "oneOf (array_node i d) = None" "allOf (array_node i d) = None"
  "entries (array_node i d) = []"
  by (simp_all add: array_node_def entries_def)

lemma plain_formI:
  assumes "plain_node t e c d v \<noteq> empty_schema"
    and "case t of None \<Rightarrow> (case e of None \<Rightarrow> True | Some values \<Rightarrow> inferred_type values = None)
          | Some (Tag s) \<Rightarrow> s \<noteq> [] | Some (Tags ts) \<Rightarrow> False"
    and "truthy_or_absent d"
  shows "plain_form (plain_node t e c d v)"
  using assms unfolding plain_form_def plain_node_sel by simp

lemma plain_form_bare: "plain_form bare_object"
proof -
  have eq: "bare_object = plain_node (Some (Tag ''object'')) None None None None"
    by (simp add: bare_object_def plain_node_def)
  show ?thesis unfolding eq
    by (rule plain_formI) (simp_all add: plain_node_def empty_schema_def truthy_or_absent_def)
qed

lemma plain_form_primitive:
  assumes "\<And>ts. type s \<noteq> Some (Tags ts)"
  shows "plain_form (primitive s)"
proof -
  define t where "t = (if truthy_type (type s) then type s else None)"
  define d where "d = (if truthy_string (description s) then description s else None)"
  define t' where "t' = (case (t, enum_values s) of (None, Some values) \<Rightarrow> inferred_type values | _ \<Rightarrow> t)"
  define simplified where "simplified = plain_node t' (enum_values s) (const s) d (default_value s)"
  have prim: "primitive s = (if simplified = empty_schema then bare_object else simplified)"
    unfolding primitive_def simplified_def t'_def t_def d_def Let_def by (rule refl)
  have d_ok: "truthy_or_absent d"
    by (auto simp: d_def truthy_or_absent_def truthy_string_def split: option.splits)
  have t_ok: "case t of None \<Rightarrow> True | Some (Tag x) \<Rightarrow> x \<noteq> [] | Some (Tags ts) \<Rightarrow> False"
    using assms by (auto simp: t_def truthy_type_def split: option.splits type_value.splits)
  have inferred: "inferred_type vs = None \<or> (\<exists>x. inferred_type vs = Some (Tag x) \<and> x \<noteq> [])" for vs
    by (auto simp: inferred_type_def split: list.splits literal.splits)
  have t'_ok: "case t' of None \<Rightarrow> (case enum_values s of None \<Rightarrow> True | Some values \<Rightarrow> inferred_type values = None)
          | Some (Tag x) \<Rightarrow> x \<noteq> [] | Some (Tags ts) \<Rightarrow> False"
  proof (cases t)
    case None
    show ?thesis
    proof (cases "enum_values s")
      case None
      with \<open>t = None\<close> show ?thesis by (simp add: t'_def)
    next
      case (Some vs)
      with \<open>t = None\<close> have "t' = inferred_type vs" by (simp add: t'_def)
      with inferred [of vs] Some show ?thesis by auto
    qed
  next
    case (Some a)
    then have "t' = t" by (simp add: t'_def split: option.splits)
    with t_ok Some show ?thesis by (auto split: type_value.splits)
  qed
  show ?thesis
  proof (cases "simplified = empty_schema")
    case True
    with prim show ?thesis by (simp add: plain_form_bare)
  next
    case False
    then have "plain_form simplified"
      unfolding simplified_def using t'_ok d_ok by (rule plain_formI)
    with prim False show ?thesis by simp
  qed
qed

lemma join_or_nonempty: "ds \<noteq> [] \<Longrightarrow> \<forall>d\<in>set ds. d \<noteq> [] \<Longrightarrow> join_or ds \<noteq> []"
  by (induction ds rule: join_or.induct) auto

lemma truthy_descriptions_nonempty: "\<forall>d\<in>set (truthy_descriptions a b). d \<noteq> []"
  by (auto simp: truthy_descriptions_def split: option.splits if_splits)

lemma mergePropertySchemas_cases:
  "mergePropertySchemas a b = a \<or> mergePropertySchemas a b = b
   \<or> (\<exists>d. truthy_or_absent d \<and> mergePropertySchemas a b = plain_node (Some (Tag ''string'')) None None d None)"
proof -
  let ?ds = "truthy_descriptions a b"
  have "truthy_or_absent (if ?ds \<noteq> [] then Some (join_or ?ds) else None)"
    using join_or_nonempty [OF _ truthy_descriptions_nonempty, of a b]
    by (simp add: truthy_or_absent_def)
  then show ?thesis
    unfolding mergePropertySchemas_def Let_def by auto
qed

lemma output_form_merge:
  assumes "output_form k a" and "output_form k b"
  shows "output_form k (mergePropertySchemas a b)"
proof (cases k)
  case 0
  with assms have "a = generic_object" "b = generic_object" by simp_all
  then have "mergePropertySchemas a b = a"
    by (simp add: mergePropertySchemas_def same_type_def generic_object_def)
  with assms show ?thesis by simp
next
  case (Suc j)
  have "plain_form (plain_node (Some (Tag ''string'')) None None d None)" if "truthy_or_absent d" for d
    using that by (intro plain_formI) (simp_all add: plain_node_def empty_schema_def)
  then have fresh: "output_form k (plain_node (Some (Tag ''string'')) None None d None)" if "truthy_or_absent d" for d
    using that Suc by simp
  from mergePropertySchemas_cases [of a b] show ?thesis
  proof (elim disjE exE conjE)
    assume "mergePropertySchemas a b = a"
    with assms(1) show ?thesis by (simp del: output_form.simps)
  next
    assume "mergePropertySchemas a b = b"
    with assms(2) show ?thesis by (simp del: output_form.simps)
  next
    fix d assume "truthy_or_absent d"
      and "mergePropertySchemas a b = plain_node (Some (Tag ''string'')) None None d None"
    with fresh [of d] show ?thesis by (simp del: output_form.simps)
  qed
qed

lemma output_form_merge_inherited:
  assumes "output_form k b"
  shows "output_form k (mergePropertySchemas inherited_member b)"
proof (cases k)
  case 0
  with assms have "b = generic_object" by simp
  then have "mergePropertySchemas inherited_member b = b"
    by (simp add: mergePropertySchemas_def same_type_def truthy_type_def inherited_member_def
        generic_object_def empty_schema_def)
  with assms show ?thesis by simp
next
  case (Suc j)
  have "plain_form (plain_node (Some (Tag ''string'')) None None d None)" if "truthy_or_absent d" for d
    using that by (intro plain_formI) (simp_all add: plain_node_def empty_schema_def)
  then have fresh: "output_form k (plain_node (Some (Tag ''string'')) None None d None)" if "truthy_or_absent d" for d
    using that Suc by simp
  from mergePropertySchemas_cases [of inherited_member b] show ?thesis
  proof (elim disjE exE conjE)
    assume "mergePropertySchemas inherited_member b = inherited_member"
    with Suc show ?thesis by simp
  next
    assume "mergePropertySchemas inherited_member b = b"
    with assms show ?thesis by (simp del: output_form.simps)
  next
    fix d assume "truthy_or_absent d"
      and "mergePropertySchemas inherited_member b = plain_node (Some (Tag ''string'')) None None d None"
    with fresh [of d] show ?thesis by (simp del: output_form.simps)
  qed
qed

lemma list_all_merge_property:
  assumes "list_all (\<lambda>(key, p). K key \<and> Q p) merged" and "K key" and "Q propSchema"
    and "\<And>a b. Q a \<Longrightarrow> Q b \<Longrightarrow> Q (mergePropertySchemas a b)"
    and "\<And>b. Q b \<Longrightarrow> Q (mergePropertySchemas inherited_member b)"
  shows "list_all (\<lambda>(key, p). K key \<and> Q p) (merge_property merged key propSchema)"
  using assms(1)
proof (induction merged)
  case Nil
  show ?case using assms(2,3) assms(5) [OF assms(3)] by simp
next
  case (Cons entry rest)
  obtain k s where entry: "entry = (k, s)" by (cases entry)
  from Cons.prems entry have k: "K k" and s: "Q s" and rest: "list_all (\<lambda>(key, p). K key \<and> Q p) rest"
    by simp_all
  show ?case
  proof (cases "k = key")
    case True
    with assms(4) [OF s assms(3)] k rest show ?thesis by (simp add: entry)
  next
    case False
    with Cons.IH [OF rest] k s show ?thesis by (simp add: entry)
  qed
qed

lemma list_all_merge_properties:
  assumes "list_all (\<lambda>(key, p). K key \<and> Q p) merged" and "list_all (\<lambda>(key, p). K key \<and> Q p) props"
    and "\<And>a b. Q a \<Longrightarrow> Q b \<Longrightarrow> Q (mergePropertySchemas a b)"
    and "\<And>b. Q b \<Longrightarrow> Q (mergePropertySchemas inherited_member b)"
  shows "list_all (\<lambda>(key, p). K key \<and> Q p) (merge_properties merged props)"
  using assms(1,2) unfolding merge_properties_def
proof (induction props arbitrary: merged)
  case Nil
  then show ?case by simp
next
  case (Cons entry props)
  obtain key propSchema where entry: "entry = (key, propSchema)" by (cases entry)
  from Cons.prems entry have "K key" and "Q propSchema"
    and rest: "list_all (\<lambda>(key, p). K key \<and> Q p) props" by simp_all
  from list_all_merge_property [where K = K and Q = Q, OF Cons.prems(1) this(1,2) assms(3,4)]
  have "list_all (\<lambda>(key, p). K key \<and> Q p) (merge_property merged key propSchema)" by simp
  from Cons.IH [OF this rest] show ?case by (simp add: entry)
qed

lemma object_option_entries_form:
  assumes "output_form (Suc k) s" and "object_option s"
  shows "list_all (\<lambda>(key, p). key \<noteq> ''__proto__'' \<and> output_form k p) (entries s)"
proof -
  from assms(2) have props: "properties s \<noteq> None" by (simp add: object_option_def)
  have "s \<noteq> generic_object" using props by (auto simp: generic_object_def)
  moreover have "s \<noteq> inherited_member"
    using props by (auto simp: inherited_member_def empty_schema_def)
  moreover have "\<not> plain_form s"
    using props unfolding plain_form_def by (metis plain_node_sel(6))
  moreover have "\<not> (case items s of None \<Rightarrow> False
          | Some itemSchema \<Rightarrow> s = array_node itemSchema (description s) \<and> truthy_or_absent (description s)
              \<and> output_form k itemSchema)"
    using props by (auto split: option.splits dest: arg_cong [where f = properties] simp: array_node_sel)
  ultimately show ?thesis using assms(1) by auto
qed

lemma merge_loop_form:
  assumes "\<And>opt y. simplify opt = Some y \<Longrightarrow> output_form (Suc k) y"
    and "list_all (\<lambda>(key, p). key \<noteq> ''__proto__'' \<and> output_form k p) merged"
    and "merge_loop simplify options merged requiredSets hasObjectOptions = Some y"
  shows "output_form (Suc k) y"
  using assms(2,3)
proof (induction options arbitrary: merged requiredSets hasObjectOptions)
  case Nil
  show ?case
  proof (cases hasObjectOptions)
    case False
    with Nil show ?thesis by (simp add: merge_result_def)
  next
    case True
    with Nil obtain req where y: "y = object_node merged req None None"
      by (auto simp: merge_result_def)
    have "y = object_node (entries y) (required y) (description y) (additionalProperties y)"
      unfolding y object_node_sel ..
    moreover have "truthy_or_absent (description y)"
      by (simp add: y object_node_sel truthy_or_absent_def)
    moreover have "list_all (\<lambda>(key, p). key \<noteq> ''__proto__'' \<and> output_form k p) (entries y)"
      using Nil.prems(1) by (simp add: y object_node_sel)
    ultimately show ?thesis by simp
  qed
next
  case (Cons opt rest)
  from Cons.prems(2) obtain s where s: "simplify opt = Some s"
    by (auto split: option.splits)
  from assms(1) [OF s] have form: "output_form (Suc k) s" .
  show ?case
  proof (cases "object_option s")
    case True
    from object_option_entries_form [OF form True]
    have "list_all (\<lambda>(key, p). key \<noteq> ''__proto__'' \<and> output_form k p) (entries s)" .
    from list_all_merge_properties [where Q = "output_form k" and K = "\<lambda>key. key \<noteq> ''__proto__''",
        OF Cons.prems(1) this output_form_merge output_form_merge_inherited]
    have merged': "list_all (\<lambda>(key, p). key \<noteq> ''__proto__'' \<and> output_form k p)
        (merge_properties merged (entries s))" by simp
    from Cons.prems(2) s True
    have "merge_loop simplify rest (merge_properties merged (entries s))
        (requiredSets @ [new_Set (required_or_empty s)]) True = Some y" by simp
    from Cons.IH [OF merged' this] show ?thesis .
  next
    case False
    show ?thesis
    proof (cases "truthy_type (type s) \<and> \<not> hasObjectOptions")
      case True
      with Cons.prems(2) s False have "y = s" by simp
      with form show ?thesis by simp
    next
      case no_return: False
      with Cons.prems(2) s False
      have "merge_loop simplify rest merged requiredSets hasObjectOptions = Some y" by auto
      from Cons.IH [OF Cons.prems(1) this] show ?thesis .
    qed
  qed
qed

lemma simplify_properties_form:
  assumes "\<And>p y. simplify p = Some y \<Longrightarrow> Q y"
    and "simplify_properties simplify props = Some simplifiedProperties"
  shows "list_all (\<lambda>(key, p). key \<noteq> ''__proto__'' \<and> Q p) simplifiedProperties"
  using assms(2)
proof (induction props arbitrary: simplifiedProperties)
  case Nil
  then show ?case by simp
next
  case (Cons entry props)
  obtain key propSchema where entry: "entry = (key, propSchema)" by (cases entry)
  from Cons.prems entry obtain s sp where s: "simplify propSchema = Some s"
    and sp: "simplify_properties simplify props = Some sp"
    and eq: "simplifiedProperties = (if key = ''__proto__'' then sp else (key, s) # sp)"
    by (auto split: option.splits)
  from assms(1) [OF s] Cons.IH [OF sp] eq show ?case by simp
qed

lemma simplify_output_form:
  "simplifySchemaForDatabricks n schema maxDepth d defs_arg = Some y \<Longrightarrow> output_form (Suc maxDepth - d) y"
proof (induction n arbitrary: schema d defs_arg y)
  case 0
  then show ?case by simp
next
  case (Suc n)
  from Suc.prems show ?case
  proof (cases rule: simplify_Suc_cases)
    case overflow
    then show ?thesis by (simp add: output_form_generic)
  next
    case (own r refSchema)
    from Suc.IH [OF own(5)] show ?thesis .
  next
    case inherited
    then have "Suc maxDepth - d = Suc (maxDepth - d)" by simp
    with inherited plain_form_bare show ?thesis by simp
  next
    case missing
    then show ?thesis by (simp add: output_form_generic)
  next
    case (merge options)
    then have level: "Suc maxDepth - d = Suc (maxDepth - d)" by simp
    have each: "output_form (Suc (maxDepth - d)) y'"
      if "simplifySchemaForDatabricks n opt maxDepth d (Some (collect_defs defs_arg schema)) = Some y'" for opt y'
      using Suc.IH [OF that] level by simp
    from merge(2) have "merge_loop (\<lambda>opt. simplifySchemaForDatabricks n opt maxDepth d (Some (collect_defs defs_arg schema)))
        options [] [] False = Some y"
      by (simp add: mergeSchemaOptions_def)
    from merge_loop_form [where simplify = "\<lambda>opt. simplifySchemaForDatabricks n opt maxDepth d (Some (collect_defs defs_arg schema))",
        OF each _ this]
    show ?thesis unfolding level by simp
  next
    case (object simplifiedProperties)
    then have level: "Suc maxDepth - d = Suc (maxDepth - d)" and below: "Suc maxDepth - (d + 1) = maxDepth - d"
      by simp_all
    have each: "output_form (maxDepth - d) y'"
      if "simplifySchemaForDatabricks n p maxDepth (d + 1) (Some (collect_defs defs_arg schema)) = Some y'" for p y'
      using Suc.IH [OF that] below by simp
    from simplify_properties_form [where Q = "output_form (maxDepth - d)"
        and simplify = "\<lambda>p. simplifySchemaForDatabricks n p maxDepth (d + 1) (Some (collect_defs defs_arg schema))",
        OF each object(2)]
    have children: "list_all (\<lambda>(key, p). key \<noteq> ''__proto__'' \<and> output_form (maxDepth - d) p)
        simplifiedProperties" .
    have "y = object_node (entries y) (required y) (description y) (additionalProperties y)"
      unfolding object(3) object_node_sel by (rule refl)
    moreover have "truthy_or_absent (description y)"
      by (auto simp: object(3) object_node_sel truthy_or_absent_def truthy_string_def split: option.splits)
    moreover have "list_all (\<lambda>(key, p). key \<noteq> ''__proto__'' \<and> output_form (maxDepth - d) p) (entries y)"
      using children by (simp add: object(3) object_node_sel)
    ultimately show ?thesis unfolding level by simp
  next
    case (array itemSchema simplifiedItems)
    then have level: "Suc maxDepth - d = Suc (maxDepth - d)" and below: "Suc maxDepth - (d + 1) = maxDepth - d"
      by simp_all
    from Suc.IH [OF array(2)] below have item: "output_form (maxDepth - d) simplifiedItems" by simp
    have "items y = Some simplifiedItems" by (simp add: array(3) array_node_sel)
    moreover have "y = array_node simplifiedItems (description y)"
      unfolding array(3) array_node_sel by (rule refl)
    moreover have "truthy_or_absent (description y)"
      by (auto simp: array(3) array_node_sel truthy_or_absent_def truthy_string_def split: option.splits)
    ultimately show ?thesis unfolding level using item by simp
  next
    case primitive
    then have level: "Suc maxDepth - d = Suc (maxDepth - d)" by simp
    from plain_form_primitive [of "normalize_node schema"] type_normalize_node
    have "plain_form y" unfolding primitive(2) by blast
    then show ?thesis unfolding level by simp
  qed
qed

lemma simplify_properties_fixed:
  assumes "list_all (\<lambda>(key, p). key \<noteq> ''__proto__'' \<and> simplify p = Some p) props"
  shows "simplify_properties simplify props = Some props"
  using assms by (induction props) auto

lemma simplify_object_node:
  assumes "\<not> maxDepth < d" and "truthy_or_absent desc"
  shows "simplifySchemaForDatabricks (Suc n) (object_node props req desc addl) maxDepth d defs_arg =
     (case simplify_properties
             (\<lambda>p. simplifySchemaForDatabricks n p maxDepth (d + 1)
                (Some (collect_defs defs_arg (object_node props req desc addl)))) props of
        None \<Rightarrow> None
      | Some simplifiedProperties \<Rightarrow> Some (object_node simplifiedProperties req desc addl))"
proof -
  have norm: "normalize_node (object_node props req desc addl) = object_node props req desc addl"
    by (simp add: normalize_node_def object_node_sel)
  have desc: "(if truthy_string desc then desc else None) = desc"
    using assms(2) by (auto simp: truthy_or_absent_def truthy_string_def split: option.splits)
  show ?thesis
    using assms
    by (auto simp: norm object_node_sel Let_def truthy_string_def truthy_or_absent_def split: option.splits)
qed

lemma simplify_array_node:
  assumes "\<not> maxDepth < d" and "truthy_or_absent desc"
  shows "simplifySchemaForDatabricks (Suc n) (array_node item desc) maxDepth d defs_arg =
     (case simplifySchemaForDatabricks n item maxDepth (d + 1) (Some (collect_defs defs_arg (array_node item desc))) of
        None \<Rightarrow> None
      | Some simplifiedItems \<Rightarrow> Some (array_node simplifiedItems desc))"
proof -
  have norm: "normalize_node (array_node item desc) = array_node item desc"
    by (simp add: normalize_node_def array_node_sel)
  have desc: "(if truthy_string desc then desc else None) = desc"
    using assms(2) by (auto simp: truthy_or_absent_def truthy_string_def split: option.splits)
  show ?thesis
    using assms
    by (auto simp: norm array_node_sel Let_def truthy_string_def truthy_or_absent_def split: option.splits)
qed

lemma primitive_plain_form:
  assumes "plain_form y"
  shows "primitive y = y"
proof -
  from assms have eq: "y = plain_node (type y) (enum_values y) (const y) (description y) (default_value y)"
    and ne: "y \<noteq> empty_schema"
    and ty: "case type y of
            None \<Rightarrow> (case enum_values y of None \<Rightarrow> True | Some vs \<Rightarrow> inferred_type vs = None)
          | Some (Tag t) \<Rightarrow> t \<noteq> []
          | Some (Tags ts) \<Rightarrow> False"
    and desc: "truthy_or_absent (description y)"
    by (simp_all add: plain_form_def)
  have t: "(if truthy_type (type y) then type y else None) = type y"
    using ty by (auto simp: truthy_type_def split: option.splits type_value.splits)
  have d: "(if truthy_string (description y) then description y else None) = description y"
    using desc by (auto simp: truthy_or_absent_def truthy_string_def split: option.splits)
  have t': "(case (type y, enum_values y) of (None, Some vs) \<Rightarrow> inferred_type vs | _ \<Rightarrow> type y) = type y"
    using ty by (auto split: option.splits)
  have "primitive y = (if plain_node (type y) (enum_values y) (const y) (description y) (default_value y) = empty_schema
      then bare_object else plain_node (type y) (enum_values y) (const y) (description y) (default_value y))"
    unfolding primitive_def Let_def t d t' by (rule refl)
  with eq ne show ?thesis by simp
qed

lemma simplify_plain_form:
  assumes "\<not> maxDepth < d" and "plain_form y"
  shows "simplifySchemaForDatabricks (Suc n) y maxDepth d defs_arg = Some y"
proof -
  from assms(2) have eq: "y = plain_node (type y) (enum_values y) (const y) (description y) (default_value y)"
    and ty: "\<And>ts. type y \<noteq> Some (Tags ts)"
    by (auto simp: plain_form_def)
  have norm: "normalize_node y = y"
    using ty by (auto simp: normalize_node_def split: option.splits type_value.splits)
  have sel: "ref y = None" "anyOf y = None" "oneOf y = None" "allOf y = None"
    "properties y = None" "items y = None"
    by (subst eq, simp add: plain_node_sel)+
  show ?thesis
    using assms(1) primitive_plain_form [OF assms(2)]
    by (simp add: norm sel Let_def truthy_string_def)
qed

lemma simplify_fixed:
  assumes "output_form k y" and "fallback_free k y" and "member_free k y" and "k = Suc maxDepth - d"
  shows "simplifySchemaForDatabricks (Suc k) y maxDepth d defs_arg = Some y"
  using assms
proof (induction k arbitrary: y d defs_arg)
  case 0
  then have "maxDepth < d" and "y = generic_object" by simp_all
  then show ?case by (simp add: simplify_overflow del: simplifySchemaForDatabricks.simps)
next
  case (Suc k)
  from Suc.prems(4) have depth: "\<not> maxDepth < d" and below: "k = Suc maxDepth - (d + 1)" by simp_all
  from Suc.prems(3) have not_member: "y \<noteq> inherited_member"
    and mfree_entries: "list_all (\<lambda>(key, p). member_free k p) (entries y)"
    and mfree_items: "case items y of None \<Rightarrow> True | Some i \<Rightarrow> member_free k i"
    by simp_all
  from Suc.prems(2) have not_generic: "y \<noteq> generic_object"
    and free_entries: "list_all (\<lambda>(key, p). fallback_free k p) (entries y)"
    and free_items: "case items y of None \<Rightarrow> True | Some i \<Rightarrow> fallback_free k i"
    by simp_all
  from Suc.prems(1) not_generic not_member consider
      (object) "y = object_node (entries y) (required y) (description y) (additionalProperties y)"
        "truthy_or_absent (description y)"
        "list_all (\<lambda>(key, p). key \<noteq> ''__proto__'' \<and> output_form k p) (entries y)"
    | (array) item where "items y = Some item" "y = array_node item (description y)"
        "truthy_or_absent (description y)" "output_form k item"
    | (plain) "plain_form y"
    by (auto split: option.splits)
  then show ?case
  proof cases
    case object
    let ?refs = "Some (collect_defs defs_arg (object_node (entries y) (required y) (description y) (additionalProperties y)))"
    have "list_all (\<lambda>(key, p). key \<noteq> ''__proto__''
        \<and> simplifySchemaForDatabricks (Suc k) p maxDepth (d + 1) ?refs = Some p) (entries y)"
      unfolding list_all_iff
    proof (intro ballI, clarify, intro conjI)
      fix key p assume member: "(key, p) \<in> set (entries y)"
      with object(3) show "key \<noteq> ''__proto__''" by (auto simp: list_all_iff)
      from member object(3) free_entries mfree_entries
      have "output_form k p" and "fallback_free k p" and "member_free k p"
        by (auto simp: list_all_iff)
      from Suc.IH [OF this below]
      show "simplifySchemaForDatabricks (Suc k) p maxDepth (d + 1) ?refs = Some p" .
    qed
    from simplify_properties_fixed [OF this]
    have "simplifySchemaForDatabricks (Suc (Suc k)) (object_node (entries y) (required y) (description y) (additionalProperties y))
        maxDepth d defs_arg = Some (object_node (entries y) (required y) (description y) (additionalProperties y))"
      by (simp add: simplify_object_node [OF depth object(2)] del: simplifySchemaForDatabricks.simps)
    with object(1) show ?thesis by simp
  next
    case (array item)
    from free_items mfree_items array(1) have "fallback_free k item" and "member_free k item" by simp_all
    from Suc.IH [OF array(4) this below]
    have "simplifySchemaForDatabricks (Suc k) item maxDepth (d + 1)
        (Some (collect_defs defs_arg (array_node item (description y)))) = Some item" .
    then have "simplifySchemaForDatabricks (Suc (Suc k)) (array_node item (description y)) maxDepth d defs_arg
        = Some (array_node item (description y))"
      by (simp add: simplify_array_node [OF depth array(3)] del: simplifySchemaForDatabricks.simps)
    with array(2) show ?thesis by simp
  next
    case plain
    from simplify_plain_form [OF depth plain] show ?thesis .
  qed
qed

lemma merge_loop_mono:
  assumes "\<And>opt y. f opt = Some y \<Longrightarrow> g opt = Some y"
    and "merge_loop f options merged requiredSets hasObjectOptions = Some y"
  shows "merge_loop g options merged requiredSets hasObjectOptions = Some y"
  using assms(2)
proof (induction options arbitrary: merged requiredSets hasObjectOptions)
  case Nil
  then show ?case by simp
next
  case (Cons opt rest)
  from Cons.prems obtain s where s: "f opt = Some s" by (auto split: option.splits)
  from assms(1) [OF s] have s': "g opt = Some s" .
  from Cons.prems s s' Cons.IH show ?case by (auto split: if_splits)
qed

lemma simplify_properties_mono:
  assumes "\<And>p y. f p = Some y \<Longrightarrow> g p = Some y"
    and "simplify_properties f props = Some simplifiedProperties"
  shows "simplify_properties g props = Some simplifiedProperties"
  using assms(2)
proof (induction props arbitrary: simplifiedProperties)
  case Nil
  then show ?case by simp
next
  case (Cons entry props)
  obtain key propSchema where entry: "entry = (key, propSchema)" by (cases entry)
  from Cons.prems entry obtain s sp where s: "f propSchema = Some s"
    and sp: "simplify_properties f props = Some sp"
    and eq: "simplifiedProperties = (if key = ''__proto__'' then sp else (key, s) # sp)"
    by (auto split: option.splits)
  from assms(1) [OF s] Cons.IH [OF sp] eq entry show ?case by simp
qed

lemma simplify_fuel_Suc:
  "simplifySchemaForDatabricks n schema maxDepth d defs_arg = Some y \<Longrightarrow>
     simplifySchemaForDatabricks (Suc n) schema maxDepth d defs_arg = Some y"
proof (induction n arbitrary: schema d defs_arg y)
  case 0
  then show ?case by simp
next
  case (Suc n)
  note IH = Suc.IH
  have merge: "mergeSchemaOptions (simplifySchemaForDatabricks (Suc n)) options maxDepth d refs = Some y"
    if "mergeSchemaOptions (simplifySchemaForDatabricks n) options maxDepth d refs = Some y" for options refs
    using that unfolding mergeSchemaOptions_def
    by (rule merge_loop_mono [rotated]) (rule IH)
  have props: "simplify_properties (\<lambda>p. simplifySchemaForDatabricks (Suc n) p maxDepth (Suc d) refs) ps = Some sp"
    if "simplify_properties (\<lambda>p. simplifySchemaForDatabricks n p maxDepth (Suc d) refs) ps = Some sp" for refs ps sp
    using that by (rule simplify_properties_mono [rotated]) (rule IH)
  from Suc.prems show ?case
    apply (subst simplifySchemaForDatabricks.simps(2))
    apply (subst (asm) simplifySchemaForDatabricks.simps(2))
    apply (auto simp del: simplifySchemaForDatabricks.simps simp: Let_def
        split: if_splits member.splits option.splits dest: merge props IH)
    done
qed

lemma simplify_fuel_mono:
  assumes "simplifySchemaForDatabricks n schema maxDepth d defs_arg = Some y" and "n \<le> m"
  shows "simplifySchemaForDatabricks m schema maxDepth d defs_arg = Some y"
  using assms(2,1)
  by (induction rule: dec_induct) (auto simp del: simplifySchemaForDatabricks.simps intro: simplify_fuel_Suc)

lemma returns_unique:
  assumes "returns schema maxDepth d defs_arg y" and "returns schema maxDepth d defs_arg z"
  shows "y = z"
proof -
  from assms obtain n m where n: "simplifySchemaForDatabricks n schema maxDepth d defs_arg = Some y"
    and m: "simplifySchemaForDatabricks m schema maxDepth d defs_arg = Some z"
    by (auto simp: returns_def)
  from simplify_fuel_mono [OF n, of "max n m"] simplify_fuel_mono [OF m, of "max n m"]
  show ?thesis by simp
qed

lemma simplify_properties_same:
  assumes "simplify_properties simplify props = Some props"
    and "list_all (\<lambda>(key, p). key \<noteq> ''__proto__'') props"
  shows "list_all (\<lambda>(key, p). simplify p = Some p) props"
  using assms
proof (induction props)
  case Nil
  then show ?case by simp
next
  case (Cons entry props)
  obtain key propSchema where entry: "entry = (key, propSchema)" by (cases entry)
  from Cons.prems entry have key: "key \<noteq> ''__proto__''"
    and rest: "list_all (\<lambda>(key, p). key \<noteq> ''__proto__'') props" by simp_all
  from Cons.prems(1) entry key have "simplify propSchema = Some propSchema"
    and "simplify_properties simplify props = Some props"
    by (auto split: option.splits)
  with Cons.IH rest entry show ?case by simp
qed

lemma simplify_inherited_member:
  "\<not> maxDepth < d \<Longrightarrow> simplifySchemaForDatabricks (Suc n) inherited_member maxDepth d defs_arg = Some bare_object"
  by (simp add: inherited_member_def collect_defs_def normalize_node_def truthy_string_def
      primitive_def truthy_type_def node_defs)

lemma simplify_generic_object:
  "\<not> maxDepth < d \<Longrightarrow> simplifySchemaForDatabricks (Suc n) generic_object maxDepth d defs_arg = Some bare_object"
  by (simp add: collect_defs_def normalize_node_def truthy_string_def primitive_def truthy_type_def node_defs)

lemma simplify_changes_fallback:
  assumes "output_form k y" and "\<not> fallback_free k y" and "k = Suc maxDepth - d"
  shows "simplifySchemaForDatabricks n y maxDepth d defs_arg \<noteq> Some y"
  using assms
proof (induction k arbitrary: y d defs_arg n)
  case 0
  then show ?case by simp
next
  case (Suc k)
  from Suc.prems(3) have depth: "\<not> maxDepth < d" and below: "k = Suc maxDepth - (d + 1)" by simp_all
  show ?case
  proof (cases n)
    case 0
    then show ?thesis by simp
  next
    case (Suc m)
    show ?thesis
    proof (cases "y = generic_object")
      case True
      have "bare_object \<noteq> generic_object" by (simp add: node_defs)
      with simplify_generic_object [OF depth, of m defs_arg] True show ?thesis
        unfolding \<open>n = Suc m\<close> by (simp del: simplifySchemaForDatabricks.simps)
    next
      case False
      have "fallback_free (Suc k) inherited_member"
        by (simp add: inherited_member_def empty_schema_def generic_object_def entries_def)
      with Suc.prems(2) have "y \<noteq> inherited_member" by blast
      with False Suc.prems(1) consider
          (object) "y = object_node (entries y) (required y) (description y) (additionalProperties y)"
            "truthy_or_absent (description y)"
            "list_all (\<lambda>(key, p). key \<noteq> ''__proto__'' \<and> output_form k p) (entries y)"
        | (array) item where "items y = Some item" "y = array_node item (description y)"
            "truthy_or_absent (description y)" "output_form k item"
        | (plain) "plain_form y"
        by (auto split: option.splits)
      then show ?thesis
      proof cases
        case object
        let ?y = "object_node (entries y) (required y) (description y) (additionalProperties y)"
        let ?f = "\<lambda>p. simplifySchemaForDatabricks m p maxDepth (d + 1) (Some (collect_defs defs_arg ?y))"
        have "items y = None" by (subst object(1)) (simp add: object_node_sel)
        with Suc.prems(2) False have "\<not> list_all (\<lambda>(key, p). fallback_free k p) (entries y)" by simp
        then obtain key p where member: "(key, p) \<in> set (entries y)" and bad: "\<not> fallback_free k p"
          by (auto simp: list_all_iff)
        from object(3) member have form: "output_form k p" by (auto simp: list_all_iff)
        from Suc.IH [OF form bad below] have changed: "?f p \<noteq> Some p" .
        have "simplifySchemaForDatabricks (Suc m) ?y maxDepth d defs_arg \<noteq> Some ?y"
        proof
          assume "simplifySchemaForDatabricks (Suc m) ?y maxDepth d defs_arg = Some ?y"
          then obtain sp where sp: "simplify_properties ?f (entries y) = Some sp"
            and eq: "object_node sp (required y) (description y) (additionalProperties y) = ?y"
            unfolding simplify_object_node [OF depth object(2)] by (auto split: option.splits)
          from eq have "sp = entries y" by (simp add: object_node_def)
          with sp have "simplify_properties ?f (entries y) = Some (entries y)" by simp
          moreover from object(3) have "list_all (\<lambda>(key, p). key \<noteq> ''__proto__'') (entries y)"
            by (auto simp: list_all_iff)
          ultimately have "list_all (\<lambda>(key, p). ?f p = Some p) (entries y)"
            by (rule simplify_properties_same)
          with member have "?f p = Some p"
            by (auto simp: list_all_iff)
          with changed show False by simp
        qed
        with object(1) show ?thesis unfolding \<open>n = Suc m\<close> by simp
      next
        case (array item)
        let ?y = "array_node item (description y)"
        have "entries y = []" by (subst array(2)) (simp add: array_node_sel)
        with Suc.prems(2) False array(1) have bad: "\<not> fallback_free k item" by simp
        from Suc.IH [OF array(4) bad below]
        have changed: "simplifySchemaForDatabricks m item maxDepth (d + 1) (Some (collect_defs defs_arg ?y)) \<noteq> Some item" .
        have "simplifySchemaForDatabricks (Suc m) ?y maxDepth d defs_arg \<noteq> Some ?y"
        proof
          assume "simplifySchemaForDatabricks (Suc m) ?y maxDepth d defs_arg = Some ?y"
          then obtain si where si: "simplifySchemaForDatabricks m item maxDepth (d + 1) (Some (collect_defs defs_arg ?y)) = Some si"
            and eq: "array_node si (description y) = ?y"
            unfolding simplify_array_node [OF depth array(3)] by (auto split: option.splits)
          from eq have "si = item" by (simp add: array_node_def)
          with si changed show False by simp
        qed
        with array(2) show ?thesis unfolding \<open>n = Suc m\<close> by simp
      next
        case plain
        then have eq: "y = plain_node (type y) (enum_values y) (const y) (description y) (default_value y)"
          by (simp add: plain_form_def)
        have "entries y = []" "items y = None"
          by (subst eq, simp add: plain_node_sel entries_def)+
        with Suc.prems(2) False show ?thesis by simp
      qed
    qed
  qed
qed

lemma simplify_no_proto_key:
  assumes "simplifySchemaForDatabricks n schema maxDepth d defs_arg = Some y"
  shows "''__proto__'' \<notin> fst ` set (entries y)"
proof -
  from simplify_output_form [OF assms] have form: "output_form (Suc maxDepth - d) y" .
  show ?thesis
  proof (cases "Suc maxDepth - d")
    case 0
    with form show ?thesis by (simp add: generic_object_def entries_def)
  next
    case (Suc k)
    with form consider "y = generic_object" | "y = inherited_member"
      | "list_all (\<lambda>(key, p). key \<noteq> ''__proto__'' \<and> output_form k p) (entries y)"
      | item where "y = array_node item (description y)"
      | "y = plain_node (type y) (enum_values y) (const y) (description y) (default_value y)"
      by (auto simp: plain_form_def split: option.splits)
    then show ?thesis
    proof cases
      case 1
      then show ?thesis by (simp add: generic_object_def entries_def)
    next
      case 2
      then show ?thesis by (simp add: inherited_member_def empty_schema_def entries_def)
    next
      case 3
      then show ?thesis by (auto simp: list_all_iff)
    next
      case (4 item)
      have "entries y = []" by (subst 4) (simp add: array_node_sel)
      then show ?thesis by simp
    next
      case 5
      have "entries y = []" by (subst 5) (simp add: plain_node_sel entries_def)
      then show ?thesis by simp
    qed
  qed
qed

text \<open>
  The union \<open>inherited_name_union\<close> has an untyped property named \<^verbatim>\<open>toString\<close>. The merge
  stores the inherited member under that name, and a second application replaces it by
  \<^verbatim>\<open>{type: 'object'}\<close>.
\<close>

lemma inherited_name_union_twice:
  "simplifySchemaForDatabricks 3 inherited_name_union 4 0 None
     = Some (object_node [(''toString'', inherited_member)] None None None)
   \<and> simplifySchemaForDatabricks 2 (object_node [(''toString'', inherited_member)] None None None) 4 0 None
     = Some (object_node [(''toString'', bare_object)] None None None)"
proof -
  have three: "(3::nat) = Suc (Suc (Suc 0))" and two: "(2::nat) = Suc (Suc 0)" by simp_all
  have first: "simplifySchemaForDatabricks 3 inherited_name_union 4 0 None
     = Some (object_node [(''toString'', inherited_member)] None None None)"
    unfolding three
    by (simp add: node_defs inherited_name_union_def described_only_def inherited_member_def
        collect_defs_def normalize_node_def truthy_string_def primitive_def truthy_type_def entries_def
        mergeSchemaOptions_def object_option_def merge_properties_def new_Set_def
        required_or_empty_def merge_result_def finalRequired_def object_prototype_names_def
        mergePropertySchemas_def same_type_def)
  have second: "simplifySchemaForDatabricks 2 (object_node [(''toString'', inherited_member)] None None None) 4 0 None
     = Some (object_node [(''toString'', bare_object)] None None None)"
    unfolding two
    by (simp add: node_defs inherited_member_def collect_defs_def normalize_node_def truthy_string_def
        primitive_def truthy_type_def entries_def)
  from first second show ?thesis by simp
qed

text \<open>
  C3 (as amended). Let the simplifier return \<open>y\<close> on a schema (\<^verbatim>\<open>currentDepth = 0\<close>, the
  reference table collected from the schema), and let no node of \<open>y\<close> at depth at most
  \<^verbatim>\<open>maxDepth\<close> be a member of \<^verbatim>\<open>Object.prototype\<close> that the merge stored. Applied to \<open>y\<close>
  with the same \<^verbatim>\<open>maxDepth\<close>, the simplifier returns \<open>y\<close> again, and nothing else, if none
  of the nodes of \<open>y\<close> at depth at most \<^verbatim>\<open>maxDepth\<close> is the generic object
  \<^verbatim>\<open>{type: 'object', additionalProperties: true}\<close>; and if one of them is, it does not
  return \<open>y\<close>.
\<close>

theorem idempotent_iff_no_fallback:
  assumes "returns schema maxDepth 0 None y" and "member_free (Suc maxDepth) y"
  shows "(fallback_free (Suc maxDepth) y \<longrightarrow>
           returns y maxDepth 0 None y \<and> (\<forall>z. returns y maxDepth 0 None z \<longrightarrow> z = y))
       \<and> (\<not> fallback_free (Suc maxDepth) y \<longrightarrow> \<not> returns y maxDepth 0 None y)"
proof -
  from assms(1) obtain n where "simplifySchemaForDatabricks n schema maxDepth 0 None = Some y"
    by (auto simp: returns_def)
  from simplify_output_form [OF this] have form: "output_form (Suc maxDepth) y" by simp
  have fixed: "returns y maxDepth 0 None y \<and> (\<forall>z. returns y maxDepth 0 None z \<longrightarrow> z = y)"
    if free: "fallback_free (Suc maxDepth) y"
  proof -
    from simplify_fixed [OF form free assms(2), of maxDepth 0 None]
    have "simplifySchemaForDatabricks (Suc (Suc maxDepth)) y maxDepth 0 None = Some y" by simp
    then have "returns y maxDepth 0 None y" unfolding returns_def by blast
    with returns_unique show ?thesis by blast
  qed
  have changed: "\<not> returns y maxDepth 0 None y" if "\<not> fallback_free (Suc maxDepth) y"
    using simplify_changes_fallback [OF form that, of maxDepth 0 _ None]
    by (simp add: returns_def del: simplifySchemaForDatabricks.simps fallback_free.simps output_form.simps)
  from fixed changed show ?thesis by blast
qed

theorem idempotent_iff_no_fallback_witness:
  "returns root_with_point 4 0 None root_with_point_simplified
   \<and> member_free 5 root_with_point_simplified
   \<and> fallback_free 5 root_with_point_simplified
   \<and> returns root_with_point_simplified 4 0 None root_with_point_simplified
   \<and> returns (ref_node ''#/$defs/Gone'') 4 0 None generic_object
   \<and> member_free 5 generic_object
   \<and> \<not> fallback_free 5 generic_object
   \<and> \<not> returns generic_object 4 0 None generic_object"
proof -
  have four: "(4::nat) = Suc (Suc (Suc (Suc 0)))" by simp
  have "simplifySchemaForDatabricks 4 root_with_point 4 0 None = Some root_with_point_simplified"
    unfolding four
    by (simp add: node_defs root_with_point_def root_with_point_simplified_def point_schema_def ref_node_def
        collect_defs_def normalize_node_def truthy_string_def primitive_def truthy_type_def entries_def
        refPath_def get_member_def)
  then have first: "returns root_with_point 4 0 None root_with_point_simplified"
    unfolding returns_def by blast
  have five: "(5::nat) = Suc (Suc (Suc (Suc (Suc 0))))" by simp
  have free: "fallback_free 5 root_with_point_simplified"
    unfolding five
    by (simp add: node_defs root_with_point_simplified_def point_schema_def entries_def)
  have mfree: "member_free 5 root_with_point_simplified"
    unfolding five
    by (simp add: node_defs inherited_member_def root_with_point_simplified_def point_schema_def entries_def)
  from idempotent_iff_no_fallback [OF first] mfree free
  have again: "returns root_with_point_simplified 4 0 None root_with_point_simplified"
    by (simp add: eval_nat_numeral)
  have "simplifySchemaForDatabricks 1 (ref_node ''#/$defs/Gone'') 4 0 None = Some generic_object"
    by (simp add: ref_node_def refPath_def collect_defs_def normalize_node_def truthy_string_def
        get_member_def object_prototype_names_def)
  then have gone: "returns (ref_node ''#/$defs/Gone'') 4 0 None generic_object"
    unfolding returns_def by blast
  have fallback: "\<not> fallback_free 5 generic_object"
    unfolding five by simp
  have gfree: "member_free 5 generic_object"
    unfolding five by (simp add: node_defs inherited_member_def entries_def)
  from idempotent_iff_no_fallback [OF gone] gfree fallback
  have "\<not> returns generic_object 4 0 None generic_object"
    by (simp add: eval_nat_numeral)
  with first mfree free again gone gfree fallback show ?thesis by simp
qed

text \<open>
  C3 as stated fails at \<^verbatim>\<open>{$ref: "#/$defs/Gone"}\<close>: the reference is unresolved, the
  result is the generic object, and the simplifier maps the generic object to
  \<^verbatim>\<open>{type: 'object'}\<close>, since the last branch does not copy \<^verbatim>\<open>additionalProperties\<close>.
\<close>

theorem not_idempotent_counterexample:
  "simplifySchemaForDatabricks 1 (ref_node ''#/$defs/Gone'') 4 0 None = Some generic_object
   \<and> simplifySchemaForDatabricks 1 generic_object 4 0 None = Some bare_object
   \<and> bare_object \<noteq> generic_object
   \<and> \<not> returns generic_object 4 0 None generic_object"
proof -
  have a: "simplifySchemaForDatabricks 1 (ref_node ''#/$defs/Gone'') 4 0 None = Some generic_object"
    by (simp add: ref_node_def refPath_def collect_defs_def normalize_node_def truthy_string_def
        get_member_def object_prototype_names_def)
  have b: "simplifySchemaForDatabricks 1 generic_object 4 0 None = Some bare_object"
    by (simp add: collect_defs_def normalize_node_def truthy_string_def
        primitive_def truthy_type_def node_defs)
  have c: "bare_object \<noteq> generic_object"
    by (simp add: node_defs)
  from b have "returns generic_object 4 0 None bare_object" unfolding returns_def by blast
  with returns_unique c have "\<not> returns generic_object 4 0 None generic_object" by blast
  with a b c show ?thesis by simp
qed

end
